theory Spec2Isabelle
  imports Main "HOL-Library.AList"
begin

section \<open>HTTP values and the cache storage\<close>

text \<open>
  A request as the fetch listener reads it: \<open>request.method\<close>, and the two parts of
  \<open>new URL(request.url)\<close> the router looks at, \<open>url.pathname\<close> and \<open>url.href\<close>.
\<close>

record request =
  http_method :: string
  pathname :: string
  href :: string

record response =
  status :: nat
  statusText :: string
  headers :: "(string \<times> string) list"
  body :: string

text \<open>\<open>response.ok\<close>: the status is in the range 200-299.\<close>

definition ok :: "response \<Rightarrow> bool" where
  "ok r = (200 \<le> status r \<and> status r \<le> 299)"

text \<open>
  \<open>headers.set(name, value)\<close>: the first header of that name takes the value and the
  others of that name go; a new name is appended.
\<close>

fun headers_set :: "string \<Rightarrow> string \<Rightarrow> (string \<times> string) list \<Rightarrow> (string \<times> string) list" where
  "headers_set k v [] = [(k, v)]"
| "headers_set k v (h # hs) =
     (if fst h = k then (k, v) # filter (\<lambda>p. fst p \<noteq> k) hs else h # headers_set k v hs)"

definition headers_get :: "string \<Rightarrow> (string \<times> string) list \<Rightarrow> string option" where
  "headers_get k hs = map_of hs k"

text \<open>\<open>s.startsWith(p)\<close>.\<close>

definition startsWith :: "string \<Rightarrow> string \<Rightarrow> bool" where
  "startsWith s p = (take (length p) s = p)"

text \<open>
  A cache maps a request (by its URL) to the stored response; the cache storage
  (\<open>caches\<close>) maps a cache name to its cache, in the order of creation, which is the
  order \<open>caches.match\<close> and \<open>caches.keys\<close> follow.
\<close>

type_synonym cache = "(string \<times> response) list"
type_synonym cache_storage = "(string \<times> cache) list"

text \<open>\<open>caches.open(name)\<close> creates the cache when it does not exist.\<close>

definition caches_open :: "string \<Rightarrow> cache_storage \<Rightarrow> cache_storage" where
  "caches_open name cs = (if name \<in> set (map fst cs) then cs else cs @ [(name, [])])"

text \<open>
  What \<open>cache.put(request, response)\<close> refuses: its promise rejects with a TypeError, and
  nothing is stored, when the URL of the request is not an http or https one, when the
  method of the request is not GET, when the status of the response is 206, and when a
  \<open>Vary\<close> header of the response lists \<open>*\<close>. The name of a header is read without regard
  to the case of its letters; the values of a \<open>Vary\<close> header are separated by commas and
  read without the spaces and tabs around them.
\<close>

definition ascii_lower :: "char \<Rightarrow> char" where
  "ascii_lower c =
     (if (65::nat) \<le> of_char c \<and> of_char c \<le> (90::nat)
      then char_of (of_char c + (32::nat)) else c)"

fun split_commas :: "string \<Rightarrow> string list" where
  "split_commas [] = [[]]"
| "split_commas (c # s) =
     (if c = CHR '','' then [] # split_commas s
      else (case split_commas s of
              v # vs \<Rightarrow> (c # v) # vs
            | [] \<Rightarrow> [[c]]))"

definition is_tab_or_space :: "char \<Rightarrow> bool" where
  "is_tab_or_space c = (c = CHR 0x09 \<or> c = CHR 0x20)"

definition strip_tab_space :: "string \<Rightarrow> string" where
  "strip_tab_space s = rev (dropWhile is_tab_or_space (rev (dropWhile is_tab_or_space s)))"

definition vary_star :: "(string \<times> string) list \<Rightarrow> bool" where
  "vary_star hs =
     list_ex (\<lambda>h. map ascii_lower (fst h) = ''vary''
                 \<and> list_ex (\<lambda>v. strip_tab_space v = ''*'') (split_commas (snd h))) hs"

definition put_refused :: "request \<Rightarrow> response \<Rightarrow> bool" where
  "put_refused rq rs =
     (\<not> (startsWith (href rq) ''http://'' \<or> startsWith (href rq) ''https://'')
      \<or> http_method rq \<noteq> ''GET''
      \<or> status rs = 206
      \<or> vary_star (headers rs))"

text \<open>
  \<open>cache.put(request, response)\<close> on the cache called \<open>name\<close>. The handlers neither await
  the promise of the put nor catch its rejection: a put that is refused leaves the
  storage as it is, and the handler goes on to return its response.
\<close>

definition cache_put :: "string \<Rightarrow> request \<Rightarrow> response \<Rightarrow> cache_storage \<Rightarrow> cache_storage" where
  "cache_put name rq rs cs =
     (if put_refused rq rs then cs
      else map (\<lambda>c. if fst c = name then (fst c, AList.update (href rq) rs (snd c)) else c) cs)"

text \<open>\<open>caches.match(request)\<close>: the first cache of the storage that holds the request.\<close>

fun caches_match :: "cache_storage \<Rightarrow> request \<Rightarrow> response option" where
  "caches_match [] rq = None"
| "caches_match (c # cs) rq =
     (case map_of (snd c) (href rq) of Some rs \<Rightarrow> Some rs | None \<Rightarrow> caches_match cs rq)"

definition caches_keys :: "cache_storage \<Rightarrow> string list" where
  "caches_keys cs = map fst cs"

definition caches_delete :: "string \<Rightarrow> cache_storage \<Rightarrow> cache_storage" where
  "caches_delete name cs = filter (\<lambda>c. fst c \<noteq> name) cs"

section \<open>JSON.stringify on the flat object of the offline response\<close>

datatype json_value = JString string | JBool bool

definition dquote :: char where
  "dquote = CHR 0x22"

definition backslash :: char where
  "backslash = CHR 0x5C"

definition hex_digit :: "nat \<Rightarrow> char" where
  "hex_digit n = (''0123456789abcdef'') ! (n mod 16)"

text \<open>The escapes of \<open>JSON.stringify\<close> for a character below U+0080.\<close>

definition json_escape :: "char \<Rightarrow> string" where
  "json_escape c =
     (if c = dquote then [backslash, dquote]
      else if c = backslash then [backslash, backslash]
      else if c = CHR 0x08 then [backslash, CHR ''b'']
      else if c = CHR 0x0C then [backslash, CHR ''f'']
      else if c = CHR 0x0A then [backslash, CHR ''n'']
      else if c = CHR 0x0D then [backslash, CHR ''r'']
      else if c = CHR 0x09 then [backslash, CHR ''t'']
      else if of_char c < (32::nat)
        then [backslash, CHR ''u'', CHR ''0'', CHR ''0'',
              hex_digit (of_char c div 16), hex_digit (of_char c)]
      else [c])"

definition json_quote :: "string \<Rightarrow> string" where
  "json_quote s = dquote # concat (map json_escape s) @ [dquote]"

fun json_value_text :: "json_value \<Rightarrow> string" where
  "json_value_text (JString s) = json_quote s"
| "json_value_text (JBool b) = (if b then ''true'' else ''false'')"

fun json_members :: "(string \<times> json_value) list \<Rightarrow> string" where
  "json_members [] = []"
| "json_members [m] = json_quote (fst m) @ '':'' @ json_value_text (snd m)"
| "json_members (m # ms) =
     json_quote (fst m) @ '':'' @ json_value_text (snd m) @ '','' @ json_members ms"

definition JSON_stringify :: "(string \<times> json_value) list \<Rightarrow> string" where
  "JSON_stringify obj = ''{'' @ json_members obj @ ''}''"

section \<open>The offline response (the same in both versions of the service worker)\<close>

definition createOfflineResponse :: response where
  "createOfflineResponse =
     \<lparr>status = 503,
      statusText = ''Service Unavailable'',
      headers = [(''Content-Type'', ''application/json''), (''sw-offline'', ''true'')],
      body = JSON_stringify
        [(''error'', JString ''Offline''),
         (''message'', JString ''You are currently offline. Please check your internet connection.''),
         (''cached'', JBool True)]\<rparr>"

definition createOfflineResponse_v200 :: response where
  "createOfflineResponse_v200 =
     \<lparr>status = 503,
      statusText = ''Service Unavailable'',
      headers = [(''Content-Type'', ''application/json''), (''sw-offline'', ''true'')],
      body = JSON_stringify
        [(''error'', JString ''Offline''),
         (''message'', JString ''You are currently offline. Please check your internet connection.''),
         (''cached'', JBool True)]\<rparr>"

section \<open>The router of version 2.1.0\<close>

definition CACHE_NAME :: string where
  "CACHE_NAME = ''prayer-times-kerala-v2.1.0''"

definition API_CACHE :: string where
  "API_CACHE = ''prayer-times-api-v2.1.0''"

definition OFFLINE_CACHE :: string where
  "OFFLINE_CACHE = ''prayer-times-offline-v2.1.0''"

definition CORE_ASSETS :: "string list" where
  "CORE_ASSETS =
     [''/index.html'',
      ''/favicon/android-chrome-192x192.png'',
      ''/favicon/android-chrome-512x512.png'',
      ''/favicon/apple-touch-icon.png'',
      ''/favicon/favicon-32x32.png'',
      ''/favicon/favicon-16x16.png'',
      ''/favicon/favicon.ico'',
      ''/favicon/site.webmanifest'',
      ''https://fonts.googleapis.com/css2?family=Inter:wght@300;400;500;600;700;800&display=swap'',
      ''https://cdnjs.cloudflare.com/ajax/libs/font-awesome/6.4.0/css/all.min.css'']"

text \<open>\<open>s.includes(p)\<close>.\<close>

fun includes_str :: "string \<Rightarrow> string \<Rightarrow> bool" where
  "includes_str [] p = (p = [])"
| "includes_str (c # s) p = (startsWith (c # s) p \<or> includes_str s p)"

text \<open>
  The handlers take the network as a function \<open>fetch\<close> (\<open>None\<close>: the promise rejects),
  the text of \<open>new Date().toISOString()\<close> as \<open>stamp\<close>, and the cache storage, and
  return the response with the storage after the (unawaited) \<open>cache.put\<close>.
\<close>

definition handleApiRequest ::
  "(request \<Rightarrow> response option) \<Rightarrow> string \<Rightarrow> cache_storage \<Rightarrow> request \<Rightarrow> response \<times> cache_storage" where
  "handleApiRequest fetch stamp cs rq =
     (let fallback =
        (case caches_match cs rq of
           Some cachedResponse \<Rightarrow>
             (\<lparr>status = status cachedResponse,
               statusText = statusText cachedResponse,
               headers = headers_set ''sw-from-cache'' ''true'' (headers cachedResponse),
               body = body cachedResponse\<rparr>, cs)
         | None \<Rightarrow> (createOfflineResponse, cs))
      in case fetch rq of
           None \<Rightarrow> fallback
         | Some networkResponse \<Rightarrow>
             if ok networkResponse then
               (let modifiedResponse =
                  \<lparr>status = status networkResponse,
                   statusText = statusText networkResponse,
                   headers = headers_set ''sw-cached-at'' stamp (headers networkResponse),
                   body = body networkResponse\<rparr>
                in (networkResponse, cache_put API_CACHE rq modifiedResponse (caches_open API_CACHE cs)))
             else fallback)"

definition handleCoreAssetRequest ::
  "(request \<Rightarrow> response option) \<Rightarrow> cache_storage \<Rightarrow> request \<Rightarrow> response \<times> cache_storage" where
  "handleCoreAssetRequest fetch cs rq =
     (case caches_match cs rq of
        Some cachedResponse \<Rightarrow> (cachedResponse, cs)
      | None \<Rightarrow>
          (case fetch rq of
             None \<Rightarrow> (createOfflineResponse, cs)
           | Some networkResponse \<Rightarrow>
               if ok networkResponse
               then (networkResponse, cache_put CACHE_NAME rq networkResponse (caches_open CACHE_NAME cs))
               else (createOfflineResponse, cs)))"

definition handleNetworkRequest ::
  "(request \<Rightarrow> response option) \<Rightarrow> cache_storage \<Rightarrow> request \<Rightarrow> response \<times> cache_storage" where
  "handleNetworkRequest fetch cs rq =
     (let fallback =
        (case caches_match cs rq of
           Some cachedResponse \<Rightarrow> (cachedResponse, cs)
         | None \<Rightarrow> (createOfflineResponse, cs))
      in case fetch rq of
           None \<Rightarrow> fallback
         | Some networkResponse \<Rightarrow>
             if ok networkResponse
             then (networkResponse, cache_put OFFLINE_CACHE rq networkResponse (caches_open OFFLINE_CACHE cs))
             else fallback)"

datatype traffic_class = ApiClass | CoreAssetClass | DefaultClass

text \<open>The branch the fetch listener takes; \<open>None\<close>: the request is not intercepted.\<close>

definition classify :: "request \<Rightarrow> traffic_class option" where
  "classify rq =
     (if http_method rq \<noteq> ''GET'' then None
      else if startsWith (pathname rq) ''/v1/'' then Some ApiClass
      else if list_ex (\<lambda>asset. includes_str (pathname rq) asset \<or> includes_str (href rq) asset) CORE_ASSETS
        then Some CoreAssetClass
      else Some DefaultClass)"

definition fetch_listener ::
  "(request \<Rightarrow> response option) \<Rightarrow> string \<Rightarrow> cache_storage \<Rightarrow> request \<Rightarrow> (response \<times> cache_storage) option" where
  "fetch_listener fetch stamp cs rq =
     (if http_method rq \<noteq> ''GET'' then None
      else if startsWith (pathname rq) ''/v1/'' then Some (handleApiRequest fetch stamp cs rq)
      else if list_ex (\<lambda>asset. includes_str (pathname rq) asset \<or> includes_str (href rq) asset) CORE_ASSETS
        then Some (handleCoreAssetRequest fetch cs rq)
      else Some (handleNetworkRequest fetch cs rq))"

text \<open>The live fetch gave a response the handlers accept.\<close>

definition live :: "(request \<Rightarrow> response option) \<Rightarrow> request \<Rightarrow> bool" where
  "live fetch rq = (case fetch rq of None \<Rightarrow> False | Some r \<Rightarrow> ok r)"

section \<open>The router of version 2.0.0 (dashboard/sw.js)\<close>

definition CACHE_NAME_v200 :: string where
  "CACHE_NAME_v200 = ''prayer-times-kerala-v2.0.0''"

definition API_CACHE_v200 :: string where
  "API_CACHE_v200 = ''prayer-times-api-v2.0.0''"

definition OFFLINE_CACHE_v200 :: string where
  "OFFLINE_CACHE_v200 = ''prayer-times-offline-v2.0.0''"

definition CORE_ASSETS_v200 :: "string list" where
  "CORE_ASSETS_v200 =
     [''/index.html'',
      ''/favicon/android-chrome-192x192.png'',
      ''/favicon/android-chrome-512x512.png'',
      ''/favicon/apple-touch-icon.png'',
      ''/favicon/favicon-32x32.png'',
      ''/favicon/favicon-16x16.png'',
      ''/favicon/favicon.ico'',
      ''/favicon/site.webmanifest'',
      ''https://fonts.googleapis.com/css2?family=Inter:wght@300;400;500;600;700;800&display=swap'',
      ''https://cdnjs.cloudflare.com/ajax/libs/font-awesome/6.4.0/css/all.min.css'']"

definition handleApiRequest_v200 ::
  "(request \<Rightarrow> response option) \<Rightarrow> string \<Rightarrow> cache_storage \<Rightarrow> request \<Rightarrow> response \<times> cache_storage" where
  "handleApiRequest_v200 fetch stamp cs rq =
     (let fallback =
        (case caches_match cs rq of
           Some cachedResponse \<Rightarrow>
             (\<lparr>status = status cachedResponse,
               statusText = statusText cachedResponse,
               headers = headers_set ''sw-from-cache'' ''true'' (headers cachedResponse),
               body = body cachedResponse\<rparr>, cs)
         | None \<Rightarrow> (createOfflineResponse_v200, cs))
      in case fetch rq of
           None \<Rightarrow> fallback
         | Some networkResponse \<Rightarrow>
             if ok networkResponse then
               (let modifiedResponse =
                  \<lparr>status = status networkResponse,
                   statusText = statusText networkResponse,
                   headers = headers_set ''sw-cached-at'' stamp (headers networkResponse),
                   body = body networkResponse\<rparr>
                in (networkResponse,
                    cache_put API_CACHE_v200 rq modifiedResponse (caches_open API_CACHE_v200 cs)))
             else fallback)"

definition handleCoreAssetRequest_v200 ::
  "(request \<Rightarrow> response option) \<Rightarrow> cache_storage \<Rightarrow> request \<Rightarrow> response \<times> cache_storage" where
  "handleCoreAssetRequest_v200 fetch cs rq =
     (case caches_match cs rq of
        Some cachedResponse \<Rightarrow> (cachedResponse, cs)
      | None \<Rightarrow>
          (case fetch rq of
             None \<Rightarrow> (createOfflineResponse_v200, cs)
           | Some networkResponse \<Rightarrow>
               if ok networkResponse
               then (networkResponse,
                     cache_put CACHE_NAME_v200 rq networkResponse (caches_open CACHE_NAME_v200 cs))
               else (createOfflineResponse_v200, cs)))"

definition handleNetworkRequest_v200 ::
  "(request \<Rightarrow> response option) \<Rightarrow> cache_storage \<Rightarrow> request \<Rightarrow> response \<times> cache_storage" where
  "handleNetworkRequest_v200 fetch cs rq =
     (let fallback =
        (case caches_match cs rq of
           Some cachedResponse \<Rightarrow> (cachedResponse, cs)
         | None \<Rightarrow> (createOfflineResponse_v200, cs))
      in case fetch rq of
           None \<Rightarrow> fallback
         | Some networkResponse \<Rightarrow>
             if ok networkResponse
             then (networkResponse,
                   cache_put OFFLINE_CACHE_v200 rq networkResponse (caches_open OFFLINE_CACHE_v200 cs))
             else fallback)"

definition classify_v200 :: "request \<Rightarrow> traffic_class option" where
  "classify_v200 rq =
     (if http_method rq \<noteq> ''GET'' then None
      else if startsWith (pathname rq) ''/v1/'' then Some ApiClass
      else if list_ex (\<lambda>asset. includes_str (pathname rq) asset \<or> includes_str (href rq) asset)
                CORE_ASSETS_v200
        then Some CoreAssetClass
      else Some DefaultClass)"

definition fetch_listener_v200 ::
  "(request \<Rightarrow> response option) \<Rightarrow> string \<Rightarrow> cache_storage \<Rightarrow> request \<Rightarrow> (response \<times> cache_storage) option" where
  "fetch_listener_v200 fetch stamp cs rq =
     (if http_method rq \<noteq> ''GET'' then None
      else if startsWith (pathname rq) ''/v1/'' then Some (handleApiRequest_v200 fetch stamp cs rq)
      else if list_ex (\<lambda>asset. includes_str (pathname rq) asset \<or> includes_str (href rq) asset)
                CORE_ASSETS_v200
        then Some (handleCoreAssetRequest_v200 fetch cs rq)
      else Some (handleNetworkRequest_v200 fetch cs rq))"

text \<open>
  Renaming the cache generation: the three names of version 2.0.0 and the three of
  version 2.1.0 change places, every other name stays.
\<close>

definition rename_generation :: "string \<Rightarrow> string" where
  "rename_generation name =
     (if name = CACHE_NAME_v200 then CACHE_NAME
      else if name = API_CACHE_v200 then API_CACHE
      else if name = OFFLINE_CACHE_v200 then OFFLINE_CACHE
      else if name = CACHE_NAME then CACHE_NAME_v200
      else if name = API_CACHE then API_CACHE_v200
      else if name = OFFLINE_CACHE then OFFLINE_CACHE_v200
      else name)"

definition rename_storage :: "cache_storage \<Rightarrow> cache_storage" where
  "rename_storage cs = map (\<lambda>c. (rename_generation (fst c), snd c)) cs"

section \<open>Activation: the clean-up of old caches (version 2.1.0)\<close>

text \<open>
  \<open>caches.keys()\<close>, then \<open>caches.delete\<close> of every name that is none of the three
  current ones.
\<close>

definition activate_cleanup :: "cache_storage \<Rightarrow> cache_storage" where
  "activate_cleanup cs =
     fold (\<lambda>cacheName acc.
             if cacheName \<noteq> CACHE_NAME \<and> cacheName \<noteq> API_CACHE \<and> cacheName \<noteq> OFFLINE_CACHE
             then caches_delete cacheName acc else acc)
          (caches_keys cs) cs"

definition current_names :: "string set" where
  "current_names = {CACHE_NAME, API_CACHE, OFFLINE_CACHE}"

section \<open>The database (IndexedDB)\<close>

text \<open>
  The three object stores of \<open>PrayerTimesDB\<close>, each with key path \<open>id\<close>. An object
  store is the list of its records; the key of a record is its \<open>id\<close>. The database is
  taken to open and its requests to succeed. IndexedDB returns the records of \<open>getAll\<close>
  in the order of their keys; the list keeps them in the order they were first put, and
  nothing proved below reads more from that order than the list itself.

  A settings record has both of its fields, as the page sends them.
\<close>

record settings_record =
  settings_id :: string
  enabled :: bool
  prayers :: "(string \<times> bool) list"

text \<open>
  The snapshot is the object the page sent, under \<open>id: "today"\<close> and stamped with
  \<open>updatedAt\<close>: its properties (\<open>subh\<close>, \<open>sunrise\<close>, ..., \<open>location\<close>) are read by
  name.
\<close>

record prayer_times =
  snapshot_id :: string
  properties :: "(string \<times> string) list"
  updatedAt :: int

record entry =
  entry_id :: string
  prayer :: string
  time :: int
  timeStr :: string
  notified :: bool

record database =
  db_settings :: "settings_record list"
  db_prayerTimes :: "prayer_times list"
  db_scheduledNotifications :: "entry list"

definition dbGet :: "('a \<Rightarrow> string) \<Rightarrow> 'a list \<Rightarrow> string \<Rightarrow> 'a option" where
  "dbGet keyPath objectStore k = find (\<lambda>x. keyPath x = k) objectStore"

fun dbPut :: "('a \<Rightarrow> string) \<Rightarrow> 'a \<Rightarrow> 'a list \<Rightarrow> 'a list" where
  "dbPut keyPath x [] = [x]"
| "dbPut keyPath x (y # ys) =
     (if keyPath y = keyPath x then x # ys else y # dbPut keyPath x ys)"

definition dbGetAll :: "'a list \<Rightarrow> 'a list" where
  "dbGetAll objectStore = objectStore"

definition dbClear :: "'a list \<Rightarrow> 'a list" where
  "dbClear objectStore = []"

section \<open>Notification functions\<close>

definition default_settings :: settings_record where
  "default_settings =
     \<lparr>settings_id = ''notifications'',
      enabled = False,
      prayers = [(''fajr'', True), (''sunrise'', False), (''dhuhr'', True),
                 (''asr'', True), (''maghrib'', True), (''isha'', True)]\<rparr>"

definition getNotificationSettings :: "database \<Rightarrow> settings_record" where
  "getNotificationSettings d =
     (case dbGet settings_id (db_settings d) ''notifications'' of
        Some s \<Rightarrow> s
      | None \<Rightarrow> default_settings)"

definition getPrayerTimes :: "database \<Rightarrow> prayer_times option" where
  "getPrayerTimes d = dbGet snapshot_id (db_prayerTimes d) ''today''"

subsection \<open>parseTimeToDate\<close>

text \<open>
  A string of the script is a sequence of UTF-16 code units, here the list of their
  numbers (from 0 to 65535). A string of this model, whose characters are below U+0100,
  is read as the list of the code units of its characters.
\<close>

definition units :: "string \<Rightarrow> int list" where
  "units s = map of_char s"

text \<open>
  The regular expression \<open>/(\d{1,2}):(\d{2})\s*(AM|PM)/i\<close>. \<open>\d\<close> is an ASCII digit.
  \<open>\s\<close> is a white space or a line terminator of the language: tab, line feed, vertical
  tab, form feed, carriage return, space, no-break space, U+1680, U+2000 to U+200A,
  U+2028, U+2029, U+202F, U+205F, U+3000 and U+FEFF. With the flag \<open>i\<close> (and no flag
  \<open>u\<close>) a letter of the pattern matches the code units whose upper case is that letter:
  \<open>A\<close> and \<open>a\<close>, \<open>M\<close> and \<open>m\<close>, \<open>P\<close> and \<open>p\<close>.
\<close>

definition is_digit :: "int \<Rightarrow> bool" where
  "is_digit u = (48 \<le> u \<and> u \<le> 57)"

definition is_space :: "int \<Rightarrow> bool" where
  "is_space u =
     (u \<in> set [0x09, 0x0A, 0x0B, 0x0C, 0x0D, 0x20, 0xA0, 0x1680, 0x2028, 0x2029, 0x202F,
               0x205F, 0x3000, 0xFEFF]
      \<or> (0x2000 \<le> u \<and> u \<le> 0x200A))"

text \<open>
  \<open>toUpperCase\<close> is applied to the two letters of the period only, so its action on the
  letters a to z is all that is read.
\<close>

definition toUpperCase :: "int \<Rightarrow> int" where
  "toUpperCase u = (if 97 \<le> u \<and> u \<le> 122 then u - 32 else u)"

definition is_period :: "int \<Rightarrow> int \<Rightarrow> bool" where
  "is_period a b = (a \<in> set (units ''AaPp'') \<and> b \<in> set (units ''Mm''))"

text \<open>
  The rest of the pattern after the first group \<open>g1\<close>: the colon, two digits, the white
  space (greedy; giving some of it back cannot help, a space is no letter) and the period.
\<close>

definition match_rest :: "int list \<Rightarrow> int list \<Rightarrow> (int list \<times> int list \<times> int list) option" where
  "match_rest g1 s =
     (case s of
        c # m1 # m2 # r \<Rightarrow>
          if [c] = units '':'' \<and> is_digit m1 \<and> is_digit m2 then
            (case dropWhile is_space r of
               a # b # _ \<Rightarrow> if is_period a b then Some (g1, [m1, m2], [a, b]) else None
             | _ \<Rightarrow> None)
          else None
      | _ \<Rightarrow> None)"

text \<open>The pattern at the start of \<open>s\<close>: \<open>\d{1,2}\<close> takes two digits first, then one.\<close>

definition match_here :: "int list \<Rightarrow> (int list \<times> int list \<times> int list) option" where
  "match_here s =
     (case s of
        [] \<Rightarrow> None
      | d1 # r1 \<Rightarrow>
          if is_digit d1 then
            (case r1 of
               d2 # r2 \<Rightarrow>
                 if is_digit d2 then
                   (case match_rest [d1, d2] r2 of
                      Some g \<Rightarrow> Some g
                    | None \<Rightarrow> match_rest [d1] r1)
                 else match_rest [d1] r1
             | [] \<Rightarrow> match_rest [d1] r1)
          else None)"

text \<open>\<open>timeStr.match(re)\<close>: the leftmost position where the pattern matches.\<close>

fun regex_match :: "int list \<Rightarrow> (int list \<times> int list \<times> int list) option" where
  "regex_match [] = None"
| "regex_match (c # s) =
     (case match_here (c # s) of Some g \<Rightarrow> Some g | None \<Rightarrow> regex_match s)"

text \<open>\<open>parseInt(ds, 10)\<close> on a string of decimal digits.\<close>

definition parseInt :: "int list \<Rightarrow> nat" where
  "parseInt ds = foldl (\<lambda>n u. 10 * n + nat (u - 48)) 0 ds"

text \<open>
  The clock. \<open>now\<close> is \<open>Date.now()\<close>, in milliseconds since the epoch. \<open>today\<close> is the
  local date of \<open>now\<close>, as the constructor of \<open>Date\<close> reads it: \<open>today hours minutes
  seconds\<close> is the instant, in milliseconds since the epoch, of \<open>new Date(now.getFullYear(),
  now.getMonth(), now.getDate(), hours, minutes, seconds)\<close>, which is the local wall-clock
  time of that date in the time zone of the host, whatever the changes of the local
  offset on that day. One reading of the clock serves a whole recomputation or scan.
\<close>

record clock =
  now :: int
  today :: "nat \<Rightarrow> nat \<Rightarrow> nat \<Rightarrow> int"

text \<open>
  Two days for the worked instances, each beginning at the instant \<open>midnight\<close>: a day on
  which the local offset does not change, and a day on which the clocks go forward from
  02:00 to 03:00.
\<close>

definition plain_day :: "int \<Rightarrow> nat \<Rightarrow> nat \<Rightarrow> nat \<Rightarrow> int" where
  "plain_day midnight hours minutes seconds =
     midnight + int hours * 3600000 + int minutes * 60000 + int seconds * 1000"

definition spring_forward_day :: "int \<Rightarrow> nat \<Rightarrow> nat \<Rightarrow> nat \<Rightarrow> int" where
  "spring_forward_day midnight hours minutes seconds =
     (if int hours * 3600 + int minutes * 60 + int seconds < 3 * 3600
      then plain_day midnight hours minutes seconds
      else plain_day midnight hours minutes seconds - 3600000)"

definition convert_hours :: "int list \<Rightarrow> nat \<Rightarrow> nat" where
  "convert_hours period hours =
     (if period = units ''PM'' \<and> hours \<noteq> 12 then hours + 12
      else if period = units ''AM'' \<and> hours = 12 then 0
      else hours)"

text \<open>
  \<open>parseTimeToDate\<close> on the code units of the time string; \<open>new_Date\<close> is the local date
  of the clock.
\<close>

definition parseTimeToDate_units :: "(nat \<Rightarrow> nat \<Rightarrow> nat \<Rightarrow> int) \<Rightarrow> int list \<Rightarrow> int option" where
  "parseTimeToDate_units new_Date s =
     (if s = [] then None
      else case regex_match s of
             None \<Rightarrow> None
           | Some (g1, g2, g3) \<Rightarrow>
               (let hours = parseInt g1;
                    minutes = parseInt g2;
                    period = map toUpperCase g3
                in Some (new_Date (convert_hours period hours) minutes 0)))"

definition parseTimeToDate :: "(nat \<Rightarrow> nat \<Rightarrow> nat \<Rightarrow> int) \<Rightarrow> string \<Rightarrow> int option" where
  "parseTimeToDate new_Date s = parseTimeToDate_units new_Date (units s)"

subsection \<open>scheduleNotifications\<close>

definition timeMapping :: "(string \<times> string) list" where
  "timeMapping =
     [(''fajr'', ''subh''), (''sunrise'', ''sunrise''), (''dhuhr'', ''duhr''),
      (''asr'', ''asar''), (''maghrib'', ''maghrib''), (''isha'', ''isha'')]"

text \<open>
  One turn of the loop over \<open>Object.entries(timeMapping)\<close>, on the object store of the
  scheduled notifications. A missing flag or property is \<open>undefined\<close>, an empty time
  string is falsy.
\<close>

definition schedule_prayer ::
  "clock \<Rightarrow> settings_record \<Rightarrow> prayer_times \<Rightarrow> string \<times> string \<Rightarrow> entry list \<Rightarrow> entry list" where
  "schedule_prayer clk sr pt m scheduled =
     (if map_of (prayers sr) (fst m) = Some True then
        (case map_of (properties pt) (snd m) of
           None \<Rightarrow> scheduled
         | Some s \<Rightarrow>
             if s = [] then scheduled
             else
               (case parseTimeToDate (today clk) s of
                  None \<Rightarrow> scheduled
                | Some prayerTime \<Rightarrow>
                    if prayerTime > now clk then
                      dbPut entry_id
                        \<lparr>entry_id = fst m, prayer = fst m, time = prayerTime,
                         timeStr = s, notified = False\<rparr> scheduled
                    else scheduled))
      else scheduled)"

definition scheduleNotifications :: "clock \<Rightarrow> database \<Rightarrow> database" where
  "scheduleNotifications clk d =
     (let sr = getNotificationSettings d in
      case getPrayerTimes d of
        None \<Rightarrow> d
      | Some pt \<Rightarrow>
          if \<not> enabled sr then d
          else d\<lparr>db_scheduledNotifications :=
                   fold (schedule_prayer clk sr pt) timeMapping
                     (dbClear (db_scheduledNotifications d))\<rparr>)"

subsection \<open>showPrayerNotification\<close>

text \<open>
  The templates of \<open>PRAYER_MESSAGES\<close> (their \<open>icon\<close>, which the code never reads, is
  left out). The middle dot of the titles is the character U+00B7.
\<close>

record message_template =
  msg_title :: string
  msg_body :: string

definition PRAYER_MESSAGES :: "(string \<times> message_template) list" where
  "PRAYER_MESSAGES =
     [(''fajr'',
       \<lparr>msg_title = ''Fajr '' @ [CHR 0xB7] @ '' {time}'',
        msg_body = ''Time for Fajr prayer in {location}. Start your day with blessings.''\<rparr>),
      (''sunrise'',
       \<lparr>msg_title = ''Sunrise '' @ [CHR 0xB7] @ '' {time}'',
        msg_body = ''The sun has risen in {location}. May your day be blessed.''\<rparr>),
      (''dhuhr'',
       \<lparr>msg_title = ''Dhuhr '' @ [CHR 0xB7] @ '' {time}'',
        msg_body = ''Time for Dhuhr prayer in {location}. Take a moment to connect.''\<rparr>),
      (''asr'',
       \<lparr>msg_title = ''Asr '' @ [CHR 0xB7] @ '' {time}'',
        msg_body = ''Time for Asr prayer in {location}. Pause and reflect.''\<rparr>),
      (''maghrib'',
       \<lparr>msg_title = ''Maghrib '' @ [CHR 0xB7] @ '' {time}'',
        msg_body = ''Time for Maghrib prayer in {location}. The day comes to a close.''\<rparr>),
      (''isha'',
       \<lparr>msg_title = ''Isha '' @ [CHR 0xB7] @ '' {time}'',
        msg_body = ''Time for Isha prayer in {location}. End your day in remembrance.''\<rparr>)]"

text \<open>
  \<open>s.replace(pattern, replacement)\<close> with a string pattern: the first occurrence
  (a replacement text without the \<open>$\<close> patterns).
\<close>

fun replace_first :: "string \<Rightarrow> string \<Rightarrow> string \<Rightarrow> string" where
  "replace_first [] pat rep = (if pat = [] then rep else [])"
| "replace_first (c # s) pat rep =
     (if startsWith (c # s) pat then rep @ drop (length pat) (c # s)
      else c # replace_first s pat rep)"

text \<open>
  What \<open>self.registration.showNotification(title, options)\<close> is called with: the title,
  and of the options the body, the tag and the data (the other options are constants).
\<close>

record notification =
  title :: string
  options_body :: string
  tag :: string
  data_prayer :: string
  data_time :: string
  data_location :: string
  data_url :: string

text \<open>
  The call of \<open>showNotification\<close> that \<open>showPrayerNotification(prayer, timeStr)\<close> makes;
  \<open>None\<close> when the prayer has no template. The message the open pages then get repeats
  the prayer, time and location of the notification.
\<close>

definition showPrayerNotification :: "database \<Rightarrow> string \<Rightarrow> string \<Rightarrow> notification option" where
  "showPrayerNotification d p ts =
     (case map_of PRAYER_MESSAGES p of
        None \<Rightarrow> None
      | Some message \<Rightarrow>
          (let locationName =
                 (case getPrayerTimes d of
                    None \<Rightarrow> ''your area''
                  | Some pt \<Rightarrow>
                      (case map_of (properties pt) ''location'' of
                         None \<Rightarrow> ''your area''
                       | Some l \<Rightarrow> if l = [] then ''your area'' else l));
               shownTime = (if ts = [] then ''Now'' else ts)
           in Some
                \<lparr>title = replace_first (msg_title message) ''{time}'' shownTime,
                 options_body =
                   replace_first (replace_first (msg_body message) ''{location}'' locationName)
                     ''{time}'' shownTime,
                 tag = ''prayer-'' @ p,
                 data_prayer = p,
                 data_time = ts,
                 data_location = locationName,
                 data_url = ''/''\<rparr>))"

subsection \<open>checkAndShowNotifications\<close>

text \<open>
  An emission is a notification shown, with the scheduled entry the scan read it from
  (\<open>None\<close> for the test notification, which comes from no entry).
\<close>

record emission =
  source :: "entry option"
  shown :: notification

definition emit :: "entry option \<Rightarrow> notification option \<Rightarrow> emission list" where
  "emit src n = (case n of None \<Rightarrow> [] | Some x \<Rightarrow> [\<lparr>source = src, shown = x\<rparr>])"

text \<open>
  One turn of the loop over the entries \<open>dbGetAll\<close> returned: \<open>notification\<close> is the
  scan's own copy of the entry, the database is the one the turn finds.
\<close>

definition scan_entry :: "int \<Rightarrow> entry \<Rightarrow> database \<times> emission list \<Rightarrow> database \<times> emission list" where
  "scan_entry t notification acc =
     (if notified notification then acc
      else
        (let timeDiff = time notification - t in
         if timeDiff \<le> 60000 \<and> timeDiff \<ge> - 60000 then
           (let d = fst acc;
                n = showPrayerNotification d (prayer notification) (timeStr notification)
            in (d\<lparr>db_scheduledNotifications :=
                     dbPut entry_id (notification\<lparr>notified := True\<rparr>) (db_scheduledNotifications d)\<rparr>,
                snd acc @ emit (Some notification) n))
         else acc))"

definition checkAndShowNotifications :: "clock \<Rightarrow> database \<Rightarrow> database \<times> emission list" where
  "checkAndShowNotifications clk d =
     (if \<not> enabled (getNotificationSettings d) then (d, [])
      else fold (scan_entry (now clk)) (dbGetAll (db_scheduledNotifications d)) (d, []))"

section \<open>The triggers\<close>

record settings_data =
  data_enabled :: bool
  data_prayers :: "(string \<times> bool) list"

datatype message =
    SKIP_WAITING
  | GET_VERSION
  | CLEAR_CACHE
  | FORCE_UPDATE
  | UPDATE_NOTIFICATION_SETTINGS settings_data
  | UPDATE_PRAYER_TIMES "(string \<times> string) list"
  | CHECK_NOTIFICATIONS
  | SCHEDULE_NOTIFICATIONS
  | TEST_NOTIFICATION "string option"

datatype reply = Version string | Success

record worker =
  caches :: cache_storage
  db :: database

definition clearAllCaches :: "cache_storage \<Rightarrow> cache_storage" where
  "clearAllCaches cs = fold caches_delete (caches_keys cs) cs"

text \<open>
  The message listener: the worker after the message, the reply on the port, and the
  notifications shown. (The reload \<open>forceUpdate\<close> asks of the open pages is outside the
  worker's state.)
\<close>

fun message_listener :: "clock \<Rightarrow> message \<Rightarrow> worker \<Rightarrow> worker \<times> reply option \<times> emission list" where
  "message_listener clk SKIP_WAITING w = (w, None, [])"
| "message_listener clk GET_VERSION w = (w, Some (Version CACHE_NAME), [])"
| "message_listener clk CLEAR_CACHE w = (w\<lparr>caches := clearAllCaches (caches w)\<rparr>, Some Success, [])"
| "message_listener clk FORCE_UPDATE w = (w\<lparr>caches := clearAllCaches (caches w)\<rparr>, Some Success, [])"
| "message_listener clk (UPDATE_NOTIFICATION_SETTINGS payload) w =
     (w\<lparr>db := scheduleNotifications clk
               ((db w)\<lparr>db_settings :=
                   dbPut settings_id
                     \<lparr>settings_id = ''notifications'', enabled = data_enabled payload,
                      prayers = data_prayers payload\<rparr> (db_settings (db w))\<rparr>)\<rparr>,
      None, [])"
| "message_listener clk (UPDATE_PRAYER_TIMES payload) w =
     (w\<lparr>db := scheduleNotifications clk
               ((db w)\<lparr>db_prayerTimes :=
                   dbPut snapshot_id
                     \<lparr>snapshot_id = ''today'', properties = payload, updatedAt = now clk\<rparr>
                     (db_prayerTimes (db w))\<rparr>)\<rparr>,
      None, [])"
| "message_listener clk CHECK_NOTIFICATIONS w =
     (case checkAndShowNotifications clk (db w) of (d, log) \<Rightarrow> (w\<lparr>db := d\<rparr>, None, log))"
| "message_listener clk SCHEDULE_NOTIFICATIONS w =
     (w\<lparr>db := scheduleNotifications clk (db w)\<rparr>, None, [])"
| "message_listener clk (TEST_NOTIFICATION p) w =
     (let name = (case p of None \<Rightarrow> ''fajr'' | Some x \<Rightarrow> if x = [] then ''fajr'' else x)
      in (w, None, emit None (showPrayerNotification (db w) name ''Test Time'')))"

text \<open>
  The entry points that reach the database: a message, a background sync and a
  periodic sync (by tag), a tick of the 30-second timer, and the activation (the clean-up
  of the caches, the recomputation, and the immediate scan of the checker it starts).
\<close>

datatype trigger =
    Message message
  | Sync string
  | PeriodicSync string
  | TimerTick
  | Activate

fun handle_trigger :: "clock \<Rightarrow> trigger \<Rightarrow> worker \<Rightarrow> worker \<times> emission list" where
  "handle_trigger clk (Message m) w =
     (case message_listener clk m w of (w', answer, log) \<Rightarrow> (w', log))"
| "handle_trigger clk (Sync t) w =
     (if t = ''check-prayer-notifications'' then
        (case checkAndShowNotifications clk (db w) of (d, log) \<Rightarrow> (w\<lparr>db := d\<rparr>, log))
      else if t = ''schedule-notifications'' then (w\<lparr>db := scheduleNotifications clk (db w)\<rparr>, [])
      else (w, []))"
| "handle_trigger clk (PeriodicSync t) w =
     (if t = ''prayer-notification-check'' then
        (case checkAndShowNotifications clk (db w) of (d, log) \<Rightarrow> (w\<lparr>db := d\<rparr>, log))
      else (w, []))"
| "handle_trigger clk TimerTick w =
     (case checkAndShowNotifications clk (db w) of (d, log) \<Rightarrow> (w\<lparr>db := d\<rparr>, log))"
| "handle_trigger clk Activate w =
     (case checkAndShowNotifications clk (scheduleNotifications clk (db w)) of
        (d, log) \<Rightarrow> (\<lparr>caches = activate_cleanup (caches w), db = d\<rparr>, log))"

text \<open>A run: the triggers one after the other, each with the clock it finds.\<close>

fun run :: "(clock \<times> trigger) list \<Rightarrow> worker \<Rightarrow> worker \<times> emission list" where
  "run [] w = (w, [])"
| "run (ct # cts) w =
     (case handle_trigger (fst ct) (snd ct) w of
        (w1, log1) \<Rightarrow> (case run cts w1 of (w2, log2) \<Rightarrow> (w2, log1 @ log2)))"

section \<open>Scans that overlap\<close>

text \<open>
  \<open>checkAndShowNotifications\<close> is an async function: it is suspended at each
  \<open>await\<close> and another trigger's scan can run meanwhile. A scan in progress is at one
  of these points: before \<open>getNotificationSettings\<close>; before \<open>dbGetAll\<close>; in the loop,
  with the time it read and its own copies of the entries still to visit; finished.
\<close>

datatype scan_task =
    ScanStart
  | ScanRead
  | ScanLoop int "entry list"
  | ScanDone

fun scan_step :: "clock \<Rightarrow> scan_task \<Rightarrow> database \<Rightarrow> scan_task \<times> database \<times> emission list" where
  "scan_step clk ScanStart d =
     (if \<not> enabled (getNotificationSettings d) then (ScanDone, d, []) else (ScanRead, d, []))"
| "scan_step clk ScanRead d = (ScanLoop (now clk) (dbGetAll (db_scheduledNotifications d)), d, [])"
| "scan_step clk (ScanLoop t []) d = (ScanDone, d, [])"
| "scan_step clk (ScanLoop t (n # ns)) d =
     (case scan_entry t n (d, []) of (d1, log) \<Rightarrow> (ScanLoop t ns, d1, log))"
| "scan_step clk ScanDone d = (ScanDone, d, [])"

text \<open>
  Two scans on one database: the schedule says whose turn each step is
  (\<open>True\<close>: the first scan).
\<close>

fun interleave ::
  "clock \<Rightarrow> bool list \<Rightarrow> scan_task \<times> scan_task \<Rightarrow> database \<Rightarrow> database \<times> emission list" where
  "interleave clk [] ts d = (d, [])"
| "interleave clk (b # bs) ts d =
     (if b then
        (case scan_step clk (fst ts) d of
           (tk, d1, log1) \<Rightarrow>
             (case interleave clk bs (tk, snd ts) d1 of (d2, log2) \<Rightarrow> (d2, log1 @ log2)))
      else
        (case scan_step clk (snd ts) d of
           (tk, d1, log1) \<Rightarrow>
             (case interleave clk bs (fst ts, tk) d1 of (d2, log2) \<Rightarrow> (d2, log1 @ log2))))"

text \<open>A single scan run to its end, step by step.\<close>

fun scan_run :: "clock \<Rightarrow> nat \<Rightarrow> scan_task \<Rightarrow> database \<Rightarrow> database \<times> emission list" where
  "scan_run clk 0 tk d = (d, [])"
| "scan_run clk (Suc k) tk d =
     (case scan_step clk tk d of
        (tk1, d1, log1) \<Rightarrow> (case scan_run clk k tk1 d1 of (d2, log2) \<Rightarrow> (d2, log1 @ log2)))"

section \<open>The specification's words, for comparison with the code\<close>

text \<open>
  A time text \<open>H:MM\<close> followed by \<open>AM\<close> or \<open>PM\<close> in any case: one or two digits, a
  colon, two digits, white space or none, and the period.
\<close>

definition time_text :: "int list \<Rightarrow> int list \<Rightarrow> int list \<Rightarrow> int list \<Rightarrow> bool" where
  "time_text hh mm ws ap =
     ((length hh = 1 \<or> length hh = 2) \<and> list_all is_digit hh
      \<and> length mm = 2 \<and> list_all is_digit mm
      \<and> list_all is_space ws
      \<and> (case ap of [x, y] \<Rightarrow> x \<in> set (units ''AaPp'') \<and> y \<in> set (units ''Mm'') | _ \<Rightarrow> False))"

text \<open>The string begins with a time text.\<close>

definition begins_time_text :: "int list \<Rightarrow> bool" where
  "begins_time_text s =
     (\<exists>hh mm ws ap post. s = hh @ units '':'' @ mm @ ws @ ap @ post \<and> time_text hh mm ws ap)"

text \<open>The hour of the 24-hour clock: PM adds 12 except at 12, 12 AM is hour 0.\<close>

definition hour24 :: "int list \<Rightarrow> nat \<Rightarrow> nat" where
  "hour24 ap h =
     (if hd ap \<in> set (units ''Pp'')
      then (if h = 12 then 12 else h + 12)
      else (if h = 12 then 0 else h))"

text \<open>
  The pending entry the specification asks of a recomputation for one prayer and its
  provider key: there is one when the flag of the prayer is on, the snapshot has a time
  string under the key that is not empty and parses, and the instant is later than now.
\<close>

definition pending_entry_for ::
  "clock \<Rightarrow> settings_record \<Rightarrow> prayer_times \<Rightarrow> string \<times> string \<Rightarrow> entry option" where
  "pending_entry_for clk sr pt m =
     (case map_of (properties pt) (snd m) of
        None \<Rightarrow> None
      | Some s \<Rightarrow>
          (case parseTimeToDate (today clk) s of
             None \<Rightarrow> None
           | Some t \<Rightarrow>
               if map_of (prayers sr) (fst m) = Some True \<and> s \<noteq> [] \<and> now clk < t
               then Some \<lparr>entry_id = fst m, prayer = fst m, time = t, timeStr = s, notified = False\<rparr>
               else None))"

text \<open>
  A pending entry is due at the time \<open>t\<close> of a scan when \<open>t\<close> is within 60 seconds of
  its fire time.
\<close>

definition due :: "int \<Rightarrow> entry \<Rightarrow> bool" where
  "due t n = (\<not> notified n \<and> \<bar>t - time n\<bar> \<le> 60000)"

text \<open>The notifications of a log that were shown for the entry of a given id.\<close>

definition emissions_for :: "string \<Rightarrow> emission list \<Rightarrow> emission list" where
  "emissions_for k log = filter (\<lambda>em. map_option entry_id (source em) = Some k) log"

text \<open>Scans one after the other, each finished before the next begins.\<close>

fun scans :: "clock list \<Rightarrow> database \<Rightarrow> database \<times> emission list" where
  "scans [] d = (d, [])"
| "scans (c # cs) d =
     (case checkAndShowNotifications c d of
        (d1, log1) \<Rightarrow> (case scans cs d1 of (d2, log2) \<Rightarrow> (d2, log1 @ log2)))"

section \<open>Properties of the router\<close>

lemma offline_same: "createOfflineResponse_v200 = createOfflineResponse"
  by (simp add: createOfflineResponse_v200_def createOfflineResponse_def)

lemma core_assets_same: "CORE_ASSETS_v200 = CORE_ASSETS"
  by (simp add: CORE_ASSETS_v200_def CORE_ASSETS_def)

lemma offline_body_text:
  "body createOfflineResponse =
     ''{'' @ [dquote] @ ''error'' @ [dquote] @ '':'' @ [dquote] @ ''Offline'' @ [dquote] @ '','' @
     [dquote] @ ''message'' @ [dquote] @ '':'' @ [dquote] @
     ''You are currently offline. Please check your internet connection.'' @ [dquote] @ '','' @
     [dquote] @ ''cached'' @ [dquote] @ '':true}''"
  by (simp add: createOfflineResponse_def JSON_stringify_def json_quote_def json_escape_def
      dquote_def backslash_def)

lemma fetch_listener_offline:
  assumes "http_method rq = ''GET''" "\<not> live fetch rq" "caches_match cs rq = None"
  shows "fetch_listener fetch stamp cs rq = Some (createOfflineResponse, cs)"
  using assms
  by (auto simp: fetch_listener_def handleApiRequest_def handleCoreAssetRequest_def
      handleNetworkRequest_def live_def Let_def split: option.splits)

lemma fetch_listener_v200_offline:
  assumes "http_method rq = ''GET''" "\<not> live fetch rq" "caches_match cs rq = None"
  shows "fetch_listener_v200 fetch stamp cs rq = Some (createOfflineResponse_v200, cs)"
  using assms
  by (auto simp: fetch_listener_v200_def handleApiRequest_v200_def
      handleCoreAssetRequest_v200_def handleNetworkRequest_v200_def live_def Let_def
      split: option.splits)

lemma headers_get_set: "headers_get k (headers_set k v hs) = Some v"
  by (induction hs) (auto simp: headers_get_def)

lemma cache_put_lookup:
  "name \<in> set (map fst cs) \<Longrightarrow> \<not> put_refused rq rs \<Longrightarrow>
   \<exists>c. map_of (cache_put name rq rs cs) name = Some c \<and> map_of c (href rq) = Some rs"
  by (induction cs) (auto simp: cache_put_def update_conv')

lemma cache_put_refused: "put_refused rq rs \<Longrightarrow> cache_put name rq rs cs = cs"
  by (simp add: cache_put_def)

lemma vary_star_headers_set:
  "length k \<noteq> 4 \<Longrightarrow> vary_star (headers_set k v hs) = vary_star hs"
proof (induction hs)
  case Nil
  then show ?case by (auto simp: vary_star_def)
next
  case (Cons h hs)
  have k: "map ascii_lower k \<noteq> ''vary''"
  proof
    assume "map ascii_lower k = ''vary''"
    then have "length (map ascii_lower k) = length ''vary''" by simp
    with Cons.prems show False by simp
  qed
  have f: "list_ex (\<lambda>h. map ascii_lower (fst h) = ''vary'' \<and> P h) (filter (\<lambda>p. fst p \<noteq> k) xs)
         = list_ex (\<lambda>h. map ascii_lower (fst h) = ''vary'' \<and> P h) xs" for P xs
    using k by (induction xs) auto
  show ?case
  proof (cases "fst h = k")
    case True
    then show ?thesis using k f by (simp add: vary_star_def)
  next
    case False
    then show ?thesis using Cons by (simp add: vary_star_def)
  qed
qed

lemma put_refused_stamped:
  "put_refused rq (r\<lparr>headers := headers_set ''sw-cached-at'' stamp (headers r)\<rparr>) = put_refused rq r"
  by (simp add: put_refused_def vary_star_headers_set)

lemma caches_open_has: "name \<in> set (map fst (caches_open name cs))"
  by (simp add: caches_open_def)

text \<open>
  Claim C6. When neither the live fetch (it rejects, or its response is not ok) nor a
  stored copy serves an intercepted GET request, the router of either version, whatever
  the class of the request, returns the offline response and leaves the caches as they
  are: status 503, the JSON text of \<open>{error: "Offline", message: ..., cached: true}\<close> as
  body, the header \<open>sw-offline\<close> set to \<open>true\<close> and \<open>Content-Type\<close> to
  \<open>application/json\<close>.
\<close>

theorem offline_response_when_nothing_serves:
  assumes "http_method rq = ''GET''" and "\<not> live fetch rq" and "caches_match cs rq = None"
  shows "fetch_listener fetch stamp cs rq = Some (createOfflineResponse, cs)
       \<and> fetch_listener_v200 fetch stamp cs rq = Some (createOfflineResponse_v200, cs)
       \<and> createOfflineResponse_v200 = createOfflineResponse
       \<and> status createOfflineResponse = 503
       \<and> body createOfflineResponse =
           JSON_stringify
             [(''error'', JString ''Offline''),
              (''message'', JString ''You are currently offline. Please check your internet connection.''),
              (''cached'', JBool True)]
       \<and> body createOfflineResponse =
           ''{'' @ [dquote] @ ''error'' @ [dquote] @ '':'' @ [dquote] @ ''Offline'' @ [dquote] @ '','' @
           [dquote] @ ''message'' @ [dquote] @ '':'' @ [dquote] @
           ''You are currently offline. Please check your internet connection.'' @ [dquote] @ '','' @
           [dquote] @ ''cached'' @ [dquote] @ '':true}''
       \<and> headers_get ''sw-offline'' (headers createOfflineResponse) = Some ''true''
       \<and> headers_get ''Content-Type'' (headers createOfflineResponse) = Some ''application/json''"
proof -
  have 1: "fetch_listener fetch stamp cs rq = Some (createOfflineResponse, cs)"
    using assms by (rule fetch_listener_offline)
  have 2: "fetch_listener_v200 fetch stamp cs rq = Some (createOfflineResponse_v200, cs)"
    using assms by (rule fetch_listener_v200_offline)
  have 3: "status createOfflineResponse = 503"
    by (simp add: createOfflineResponse_def)
  have 4: "body createOfflineResponse =
           JSON_stringify
             [(''error'', JString ''Offline''),
              (''message'', JString ''You are currently offline. Please check your internet connection.''),
              (''cached'', JBool True)]"
    by (simp add: createOfflineResponse_def)
  have 5: "headers_get ''sw-offline'' (headers createOfflineResponse) = Some ''true''"
    by (simp add: createOfflineResponse_def headers_get_def)
  have 6: "headers_get ''Content-Type'' (headers createOfflineResponse) = Some ''application/json''"
    by (simp add: createOfflineResponse_def headers_get_def)
  from 1 2 3 4 5 6 offline_same offline_body_text show ?thesis
    by blast
qed

text \<open>
  Nothing is cached. A page asks for \<open>/about.html\<close> (default class) while the network
  is down: both versions answer with the offline response. So does version 2.1.0 for the
  favicon (core-asset class) when the server answers 404, and for the timesheet index
  (API class) when the network is down.
\<close>

theorem offline_response_when_nothing_serves_witness:
  "fetch_listener (\<lambda>_. None) ''2025-06-01T05:00:00.000Z'' []
     \<lparr>http_method = ''GET'', pathname = ''/about.html'', href = ''https://azantimes.in/about.html''\<rparr>
     = Some (createOfflineResponse, [])
   \<and> fetch_listener_v200 (\<lambda>_. None) ''2025-06-01T05:00:00.000Z'' []
     \<lparr>http_method = ''GET'', pathname = ''/about.html'', href = ''https://azantimes.in/about.html''\<rparr>
     = Some (createOfflineResponse_v200, [])
   \<and> fetch_listener (\<lambda>_. Some \<lparr>status = 404, statusText = ''Not Found'', headers = [], body = []\<rparr>)
       ''2025-06-01T05:00:00.000Z'' []
       \<lparr>http_method = ''GET'', pathname = ''/favicon/favicon.ico'',
        href = ''https://azantimes.in/favicon/favicon.ico''\<rparr>
     = Some (createOfflineResponse, [])
   \<and> fetch_listener (\<lambda>_. None) ''2025-06-01T05:00:00.000Z'' [(API_CACHE, [])]
       \<lparr>http_method = ''GET'', pathname = ''/v1/timesheets/index.json'',
        href = ''https://api.azantimes.in/v1/timesheets/index.json''\<rparr>
     = Some (createOfflineResponse, [(API_CACHE, [])])
   \<and> status createOfflineResponse = 503"
proof (intro conjI)
  show "fetch_listener (\<lambda>_. None) ''2025-06-01T05:00:00.000Z'' []
     \<lparr>http_method = ''GET'', pathname = ''/about.html'', href = ''https://azantimes.in/about.html''\<rparr>
     = Some (createOfflineResponse, [])"
    and "fetch_listener_v200 (\<lambda>_. None) ''2025-06-01T05:00:00.000Z'' []
     \<lparr>http_method = ''GET'', pathname = ''/about.html'', href = ''https://azantimes.in/about.html''\<rparr>
     = Some (createOfflineResponse_v200, [])"
    and "status createOfflineResponse = 503"
    using offline_response_when_nothing_serves
      [of "\<lparr>http_method = ''GET'', pathname = ''/about.html'', href = ''https://azantimes.in/about.html''\<rparr>"
          "\<lambda>_. None" "[]" "''2025-06-01T05:00:00.000Z''"]
    by (simp_all add: live_def)
  show "fetch_listener (\<lambda>_. Some \<lparr>status = 404, statusText = ''Not Found'', headers = [], body = []\<rparr>)
       ''2025-06-01T05:00:00.000Z'' []
       \<lparr>http_method = ''GET'', pathname = ''/favicon/favicon.ico'',
        href = ''https://azantimes.in/favicon/favicon.ico''\<rparr>
     = Some (createOfflineResponse, [])"
    using offline_response_when_nothing_serves
      [of "\<lparr>http_method = ''GET'', pathname = ''/favicon/favicon.ico'',
            href = ''https://azantimes.in/favicon/favicon.ico''\<rparr>"
          "\<lambda>_. Some \<lparr>status = 404, statusText = ''Not Found'', headers = [], body = []\<rparr>"
          "[]" "''2025-06-01T05:00:00.000Z''"]
    by (simp add: live_def ok_def)
  show "fetch_listener (\<lambda>_. None) ''2025-06-01T05:00:00.000Z'' [(API_CACHE, [])]
       \<lparr>http_method = ''GET'', pathname = ''/v1/timesheets/index.json'',
        href = ''https://api.azantimes.in/v1/timesheets/index.json''\<rparr>
     = Some (createOfflineResponse, [(API_CACHE, [])])"
    using offline_response_when_nothing_serves
      [of "\<lparr>http_method = ''GET'', pathname = ''/v1/timesheets/index.json'',
            href = ''https://api.azantimes.in/v1/timesheets/index.json''\<rparr>"
          "\<lambda>_. None" "[(API_CACHE, [])]" "''2025-06-01T05:00:00.000Z''"]
    by (simp add: live_def)
qed

text \<open>
  Claim C1. A GET request whose path starts with \<open>/v1/\<close> goes to the API handler, which
  is network-first. When the fetch gives an ok response, that response is returned; the
  handler then puts into the API cache, under the request, a copy of it whose header
  \<open>sw-cached-at\<close> is the stamp just taken, and the stamp does not change whether the
  cache refuses the put. When the cache takes the copy (an http or https URL, a status
  other than 206, no \<open>Vary\<close> header that lists \<open>*\<close>), the API cache holds it under the
  request; when the cache refuses it, the storage is as \<open>caches.open\<close> left it and the
  live response is returned all the same. When the fetch fails (it rejects, or the
  response is not ok), the stored copy that \<open>caches.match\<close> finds for the request is
  returned with its status, status text and body, and with \<open>sw-from-cache\<close> set to
  \<open>true\<close>; the caches stay as they are. When there is no stored copy either, the offline
  response (status 503) is returned.
\<close>

theorem api_requests_network_first:
  assumes "http_method rq = ''GET''" and "startsWith (pathname rq) ''/v1/''"
  shows "fetch_listener fetch stamp cs rq = Some (handleApiRequest fetch stamp cs rq)
       \<and> (\<forall>r. fetch rq = Some r \<and> ok r \<longrightarrow>
             handleApiRequest fetch stamp cs rq =
               (r, cache_put API_CACHE rq
                     (r\<lparr>headers := headers_set ''sw-cached-at'' stamp (headers r)\<rparr>)
                     (caches_open API_CACHE cs))
           \<and> put_refused rq (r\<lparr>headers := headers_set ''sw-cached-at'' stamp (headers r)\<rparr>)
               = (\<not> (startsWith (href rq) ''http://'' \<or> startsWith (href rq) ''https://'')
                  \<or> status r = 206 \<or> vary_star (headers r))
           \<and> (\<not> put_refused rq (r\<lparr>headers := headers_set ''sw-cached-at'' stamp (headers r)\<rparr>) \<longrightarrow>
                (\<exists>c. map_of (snd (handleApiRequest fetch stamp cs rq)) API_CACHE = Some c
                    \<and> map_of c (href rq) =
                        Some (r\<lparr>headers := headers_set ''sw-cached-at'' stamp (headers r)\<rparr>)))
           \<and> (put_refused rq (r\<lparr>headers := headers_set ''sw-cached-at'' stamp (headers r)\<rparr>) \<longrightarrow>
                handleApiRequest fetch stamp cs rq = (r, caches_open API_CACHE cs))
           \<and> headers_get ''sw-cached-at'' (headers_set ''sw-cached-at'' stamp (headers r)) = Some stamp)
       \<and> (\<forall>c. \<not> live fetch rq \<and> caches_match cs rq = Some c \<longrightarrow>
             handleApiRequest fetch stamp cs rq =
               (c\<lparr>headers := headers_set ''sw-from-cache'' ''true'' (headers c)\<rparr>, cs)
           \<and> status (fst (handleApiRequest fetch stamp cs rq)) = status c
           \<and> headers_get ''sw-from-cache'' (headers (fst (handleApiRequest fetch stamp cs rq)))
               = Some ''true'')
       \<and> (\<not> live fetch rq \<and> caches_match cs rq = None \<longrightarrow>
             handleApiRequest fetch stamp cs rq = (createOfflineResponse, cs)
           \<and> status (fst (handleApiRequest fetch stamp cs rq)) = 503)"
proof -
  have route: "fetch_listener fetch stamp cs rq = Some (handleApiRequest fetch stamp cs rq)"
    using assms by (simp add: fetch_listener_def)
  have fresh: "handleApiRequest fetch stamp cs rq =
               (r, cache_put API_CACHE rq
                     (r\<lparr>headers := headers_set ''sw-cached-at'' stamp (headers r)\<rparr>)
                     (caches_open API_CACHE cs))
           \<and> put_refused rq (r\<lparr>headers := headers_set ''sw-cached-at'' stamp (headers r)\<rparr>)
               = (\<not> (startsWith (href rq) ''http://'' \<or> startsWith (href rq) ''https://'')
                  \<or> status r = 206 \<or> vary_star (headers r))
           \<and> (\<not> put_refused rq (r\<lparr>headers := headers_set ''sw-cached-at'' stamp (headers r)\<rparr>) \<longrightarrow>
                (\<exists>c. map_of (snd (handleApiRequest fetch stamp cs rq)) API_CACHE = Some c
                    \<and> map_of c (href rq) =
                        Some (r\<lparr>headers := headers_set ''sw-cached-at'' stamp (headers r)\<rparr>)))
           \<and> (put_refused rq (r\<lparr>headers := headers_set ''sw-cached-at'' stamp (headers r)\<rparr>) \<longrightarrow>
                handleApiRequest fetch stamp cs rq = (r, caches_open API_CACHE cs))
           \<and> headers_get ''sw-cached-at'' (headers_set ''sw-cached-at'' stamp (headers r)) = Some stamp"
    if "fetch rq = Some r \<and> ok r" for r
  proof -
    let ?copy = "r\<lparr>headers := headers_set ''sw-cached-at'' stamp (headers r)\<rparr>"
    have copy: "\<lparr>status = status r, statusText = statusText r,
                 headers = headers_set ''sw-cached-at'' stamp (headers r), body = body r\<rparr>
                = ?copy"
      by simp
    have res: "handleApiRequest fetch stamp cs rq =
               (r, cache_put API_CACHE rq ?copy (caches_open API_CACHE cs))"
      using that by (simp add: handleApiRequest_def Let_def copy)
    have ref: "put_refused rq ?copy
               = (\<not> (startsWith (href rq) ''http://'' \<or> startsWith (href rq) ''https://'')
                  \<or> status r = 206 \<or> vary_star (headers r))"
      using assms(1) by (simp add: put_refused_stamped) (simp add: put_refused_def)
    have kept: "\<exists>c. map_of (snd (handleApiRequest fetch stamp cs rq)) API_CACHE = Some c
                    \<and> map_of c (href rq) = Some ?copy"
      if "\<not> put_refused rq ?copy"
      using cache_put_lookup [OF caches_open_has that, of API_CACHE cs] by (simp add: res)
    have lost: "handleApiRequest fetch stamp cs rq = (r, caches_open API_CACHE cs)"
      if "put_refused rq ?copy"
      using cache_put_refused [OF that] by (simp add: res)
    from res ref kept lost show ?thesis
      by (simp add: headers_get_set)
  qed
  have stale: "handleApiRequest fetch stamp cs rq =
               (c\<lparr>headers := headers_set ''sw-from-cache'' ''true'' (headers c)\<rparr>, cs)
           \<and> status (fst (handleApiRequest fetch stamp cs rq)) = status c
           \<and> headers_get ''sw-from-cache'' (headers (fst (handleApiRequest fetch stamp cs rq)))
               = Some ''true''"
    if "\<not> live fetch rq \<and> caches_match cs rq = Some c" for c
    using that
    by (auto simp: handleApiRequest_def live_def Let_def headers_get_set split: option.splits)
  have offline: "handleApiRequest fetch stamp cs rq = (createOfflineResponse, cs)
           \<and> status (fst (handleApiRequest fetch stamp cs rq)) = 503"
    if "\<not> live fetch rq \<and> caches_match cs rq = None"
    using that
    by (auto simp: handleApiRequest_def live_def Let_def createOfflineResponse_def
        split: option.splits)
  from route fresh stale offline show ?thesis
    by blast
qed

text \<open>
  The timesheet index is fetched with success into an empty cache storage: the live
  response comes back, and the API cache is created holding the stamped copy. Four hours
  later the network is down: the stored copy comes back, marked as served from the cache.
  A live response that varies on everything (\<open>Vary: Accept-Encoding, *\<close>) comes back
  too, and the cache, which refuses it, is created and left empty.
\<close>

theorem api_requests_network_first_witness:
  "fetch_listener
     (\<lambda>_. Some \<lparr>status = 200, statusText = ''OK'', headers = [(''content-type'', ''application/json'')], body = ''[]''\<rparr>)
     ''2025-06-01T05:00:00.000Z'' []
     \<lparr>http_method = ''GET'', pathname = ''/v1/timesheets/index.json'',
      href = ''https://api.azantimes.in/v1/timesheets/index.json''\<rparr>
   = Some (\<lparr>status = 200, statusText = ''OK'', headers = [(''content-type'', ''application/json'')], body = ''[]''\<rparr>,
           [(API_CACHE,
             [(''https://api.azantimes.in/v1/timesheets/index.json'',
               \<lparr>status = 200, statusText = ''OK'',
                headers = [(''content-type'', ''application/json''),
                           (''sw-cached-at'', ''2025-06-01T05:00:00.000Z'')],
                body = ''[]''\<rparr>)])])
   \<and> fetch_listener (\<lambda>_. None) ''2025-06-01T09:00:00.000Z''
       [(API_CACHE,
         [(''https://api.azantimes.in/v1/timesheets/index.json'',
           \<lparr>status = 200, statusText = ''OK'',
            headers = [(''content-type'', ''application/json''),
                       (''sw-cached-at'', ''2025-06-01T05:00:00.000Z'')],
            body = ''[]''\<rparr>)])]
       \<lparr>http_method = ''GET'', pathname = ''/v1/timesheets/index.json'',
        href = ''https://api.azantimes.in/v1/timesheets/index.json''\<rparr>
     = Some (\<lparr>status = 200, statusText = ''OK'',
              headers = [(''content-type'', ''application/json''),
                         (''sw-cached-at'', ''2025-06-01T05:00:00.000Z''),
                         (''sw-from-cache'', ''true'')],
              body = ''[]''\<rparr>,
             [(API_CACHE,
               [(''https://api.azantimes.in/v1/timesheets/index.json'',
                 \<lparr>status = 200, statusText = ''OK'',
                  headers = [(''content-type'', ''application/json''),
                             (''sw-cached-at'', ''2025-06-01T05:00:00.000Z'')],
                  body = ''[]''\<rparr>)])])
   \<and> fetch_listener
       (\<lambda>_. Some \<lparr>status = 200, statusText = ''OK'', headers = [(''Vary'', ''Accept-Encoding, *'')], body = ''[]''\<rparr>)
       ''2025-06-01T05:00:00.000Z'' []
       \<lparr>http_method = ''GET'', pathname = ''/v1/timesheets/index.json'',
        href = ''https://api.azantimes.in/v1/timesheets/index.json''\<rparr>
     = Some (\<lparr>status = 200, statusText = ''OK'', headers = [(''Vary'', ''Accept-Encoding, *'')], body = ''[]''\<rparr>,
             [(API_CACHE, [])])"
proof (intro conjI)
  let ?rq = "\<lparr>http_method = ''GET'', pathname = ''/v1/timesheets/index.json'',
             href = ''https://api.azantimes.in/v1/timesheets/index.json''\<rparr>"
  let ?r = "\<lparr>status = 200, statusText = ''OK'', headers = [(''content-type'', ''application/json'')], body = ''[]''\<rparr>"
  let ?v = "\<lparr>status = 200, statusText = ''OK'', headers = [(''Vary'', ''Accept-Encoding, *'')], body = ''[]''\<rparr>"
  have taken: "\<not> put_refused ?rq (?r\<lparr>headers := headers_set ''sw-cached-at'' ''2025-06-01T05:00:00.000Z'' (headers ?r)\<rparr>)"
    by code_simp
  have refused: "put_refused ?rq (?v\<lparr>headers := headers_set ''sw-cached-at'' ''2025-06-01T05:00:00.000Z'' (headers ?v)\<rparr>)"
    by code_simp
  have "fetch_listener (\<lambda>_. Some ?r) ''2025-06-01T05:00:00.000Z'' [] ?rq
        = Some (?r, cache_put API_CACHE ?rq
                      (?r\<lparr>headers := headers_set ''sw-cached-at'' ''2025-06-01T05:00:00.000Z'' (headers ?r)\<rparr>)
                      (caches_open API_CACHE []))"
    using api_requests_network_first [of ?rq "\<lambda>_. Some ?r" "''2025-06-01T05:00:00.000Z''" "[]"]
    by (simp add: startsWith_def ok_def)
  with taken show "fetch_listener (\<lambda>_. Some ?r) ''2025-06-01T05:00:00.000Z'' [] ?rq
   = Some (?r,
           [(API_CACHE,
             [(''https://api.azantimes.in/v1/timesheets/index.json'',
               \<lparr>status = 200, statusText = ''OK'',
                headers = [(''content-type'', ''application/json''),
                           (''sw-cached-at'', ''2025-06-01T05:00:00.000Z'')],
                body = ''[]''\<rparr>)])])"
    by (simp add: cache_put_def caches_open_def)
  show "fetch_listener (\<lambda>_. None) ''2025-06-01T09:00:00.000Z''
       [(API_CACHE,
         [(''https://api.azantimes.in/v1/timesheets/index.json'',
           \<lparr>status = 200, statusText = ''OK'',
            headers = [(''content-type'', ''application/json''),
                       (''sw-cached-at'', ''2025-06-01T05:00:00.000Z'')],
            body = ''[]''\<rparr>)])]
       ?rq
     = Some (\<lparr>status = 200, statusText = ''OK'',
              headers = [(''content-type'', ''application/json''),
                         (''sw-cached-at'', ''2025-06-01T05:00:00.000Z''),
                         (''sw-from-cache'', ''true'')],
              body = ''[]''\<rparr>,
             [(API_CACHE,
               [(''https://api.azantimes.in/v1/timesheets/index.json'',
                 \<lparr>status = 200, statusText = ''OK'',
                  headers = [(''content-type'', ''application/json''),
                             (''sw-cached-at'', ''2025-06-01T05:00:00.000Z'')],
                  body = ''[]''\<rparr>)])])"
    using api_requests_network_first
      [of ?rq "\<lambda>_. None" "''2025-06-01T09:00:00.000Z''"
          "[(API_CACHE,
             [(''https://api.azantimes.in/v1/timesheets/index.json'',
               \<lparr>status = 200, statusText = ''OK'',
                headers = [(''content-type'', ''application/json''),
                           (''sw-cached-at'', ''2025-06-01T05:00:00.000Z'')],
                body = ''[]''\<rparr>)])]"]
    by (simp add: startsWith_def live_def)
  have "fetch_listener (\<lambda>_. Some ?v) ''2025-06-01T05:00:00.000Z'' [] ?rq
        = Some (?v, cache_put API_CACHE ?rq
                      (?v\<lparr>headers := headers_set ''sw-cached-at'' ''2025-06-01T05:00:00.000Z'' (headers ?v)\<rparr>)
                      (caches_open API_CACHE []))"
    using api_requests_network_first [of ?rq "\<lambda>_. Some ?v" "''2025-06-01T05:00:00.000Z''" "[]"]
    by (simp add: startsWith_def ok_def)
  with refused show "fetch_listener (\<lambda>_. Some ?v) ''2025-06-01T05:00:00.000Z'' [] ?rq
     = Some (?v, [(API_CACHE, [])])"
    by (simp add: cache_put_def caches_open_def)
qed

text \<open>
  The claim as the specification words it, with a copy stored after every ok response,
  does not hold of the code. A request for a part of the timesheet index is answered
  with status 206, which is ok: the live response comes back, the API cache refuses the
  copy, and no cache holds anything for the request afterwards.
\<close>

theorem api_partial_content_not_stored_counterexample:
  "http_method \<lparr>http_method = ''GET'', pathname = ''/v1/timesheets/index.json'',
                href = ''https://api.azantimes.in/v1/timesheets/index.json''\<rparr> = ''GET''
   \<and> startsWith (pathname \<lparr>http_method = ''GET'', pathname = ''/v1/timesheets/index.json'',
                href = ''https://api.azantimes.in/v1/timesheets/index.json''\<rparr>) ''/v1/''
   \<and> ok \<lparr>status = 206, statusText = ''Partial Content'',
          headers = [(''content-range'', ''bytes 0-0/2'')], body = ''[''\<rparr>
   \<and> fetch_listener
       (\<lambda>_. Some \<lparr>status = 206, statusText = ''Partial Content'',
                   headers = [(''content-range'', ''bytes 0-0/2'')], body = ''[''\<rparr>)
       ''2025-06-01T05:00:00.000Z'' []
       \<lparr>http_method = ''GET'', pathname = ''/v1/timesheets/index.json'',
        href = ''https://api.azantimes.in/v1/timesheets/index.json''\<rparr>
     = Some (\<lparr>status = 206, statusText = ''Partial Content'',
              headers = [(''content-range'', ''bytes 0-0/2'')], body = ''[''\<rparr>,
             [(API_CACHE, [])])
   \<and> caches_match [(API_CACHE, [])]
       \<lparr>http_method = ''GET'', pathname = ''/v1/timesheets/index.json'',
        href = ''https://api.azantimes.in/v1/timesheets/index.json''\<rparr> = None"
  by (simp add: fetch_listener_def handleApiRequest_def startsWith_def ok_def
      cache_put_def put_refused_def caches_open_def)

subsection \<open>The two versions\<close>

lemma rename_generation_invol: "rename_generation (rename_generation n) = n"
  by (simp add: rename_generation_def CACHE_NAME_def API_CACHE_def OFFLINE_CACHE_def
      CACHE_NAME_v200_def API_CACHE_v200_def OFFLINE_CACHE_v200_def)

lemma rename_generation_inj: "rename_generation a = rename_generation b \<longleftrightarrow> a = b"
  by (metis rename_generation_invol)

lemma rename_generation_v200:
  "rename_generation CACHE_NAME_v200 = CACHE_NAME"
  "rename_generation API_CACHE_v200 = API_CACHE"
  "rename_generation OFFLINE_CACHE_v200 = OFFLINE_CACHE"
  by (simp_all add: rename_generation_def CACHE_NAME_def API_CACHE_def OFFLINE_CACHE_def
      CACHE_NAME_v200_def API_CACHE_v200_def OFFLINE_CACHE_v200_def)

lemma caches_match_rename: "caches_match (rename_storage cs) rq = caches_match cs rq"
  by (induction cs) (auto simp: rename_storage_def split: option.splits)

lemma caches_open_rename:
  "caches_open (rename_generation n) (rename_storage cs) = rename_storage (caches_open n cs)"
proof -
  have "rename_generation n \<in> set (map fst (rename_storage cs)) \<longleftrightarrow> n \<in> set (map fst cs)"
    by (auto simp: rename_storage_def rename_generation_inj image_iff)
  then show ?thesis
    by (simp add: caches_open_def rename_storage_def)
qed

lemma cache_put_rename:
  "cache_put (rename_generation n) rq rs (rename_storage cs) = rename_storage (cache_put n rq rs cs)"
  by (simp add: cache_put_def rename_storage_def rename_generation_inj)

lemma put_open_rename:
  "cache_put (rename_generation n) rq rs (caches_open (rename_generation n) (rename_storage cs))
   = rename_storage (cache_put n rq rs (caches_open n cs))"
  by (simp add: caches_open_rename cache_put_rename)

lemma handleApiRequest_rename:
  "handleApiRequest fetch stamp (rename_storage cs) rq =
   (fst (handleApiRequest_v200 fetch stamp cs rq),
    rename_storage (snd (handleApiRequest_v200 fetch stamp cs rq)))"
  using put_open_rename [of API_CACHE_v200]
  by (simp add: handleApiRequest_def handleApiRequest_v200_def caches_match_rename offline_same
      rename_generation_v200 Let_def split: option.splits)

lemma handleCoreAssetRequest_rename:
  "handleCoreAssetRequest fetch (rename_storage cs) rq =
   (fst (handleCoreAssetRequest_v200 fetch cs rq),
    rename_storage (snd (handleCoreAssetRequest_v200 fetch cs rq)))"
  using put_open_rename [of CACHE_NAME_v200]
  by (simp add: handleCoreAssetRequest_def handleCoreAssetRequest_v200_def caches_match_rename
      offline_same rename_generation_v200 Let_def split: option.splits)

lemma handleNetworkRequest_rename:
  "handleNetworkRequest fetch (rename_storage cs) rq =
   (fst (handleNetworkRequest_v200 fetch cs rq),
    rename_storage (snd (handleNetworkRequest_v200 fetch cs rq)))"
  using put_open_rename [of OFFLINE_CACHE_v200]
  by (simp add: handleNetworkRequest_def handleNetworkRequest_v200_def caches_match_rename
      offline_same rename_generation_v200 Let_def split: option.splits)

lemma handlers_same_response:
  "fst (handleApiRequest fetch stamp cs rq) = fst (handleApiRequest_v200 fetch stamp cs rq)"
  "fst (handleCoreAssetRequest fetch cs rq) = fst (handleCoreAssetRequest_v200 fetch cs rq)"
  "fst (handleNetworkRequest fetch cs rq) = fst (handleNetworkRequest_v200 fetch cs rq)"
  by (simp_all add: handleApiRequest_def handleApiRequest_v200_def
      handleCoreAssetRequest_def handleCoreAssetRequest_v200_def
      handleNetworkRequest_def handleNetworkRequest_v200_def offline_same Let_def
      split: option.splits)

text \<open>
  Claim C10. The fetch listeners of version 2.0.0 and of version 2.1.0 route alike. They
  put every request in the same class (none for a request that is not a GET), and each
  hands the request to its handler of that class. On cache storages that differ only by
  the renaming of the generation, they return the same response and leave storages that
  again differ only by the renaming; and on one and the same storage they return the
  same response (\<open>caches.match\<close> reads every cache, whatever its name).
\<close>

theorem versions_route_alike:
  "classify_v200 rq = classify rq
   \<and> fetch_listener fetch stamp cs rq =
       map_option (\<lambda>c. case c of
           ApiClass \<Rightarrow> handleApiRequest fetch stamp cs rq
         | CoreAssetClass \<Rightarrow> handleCoreAssetRequest fetch cs rq
         | DefaultClass \<Rightarrow> handleNetworkRequest fetch cs rq) (classify rq)
   \<and> fetch_listener_v200 fetch stamp cs rq =
       map_option (\<lambda>c. case c of
           ApiClass \<Rightarrow> handleApiRequest_v200 fetch stamp cs rq
         | CoreAssetClass \<Rightarrow> handleCoreAssetRequest_v200 fetch cs rq
         | DefaultClass \<Rightarrow> handleNetworkRequest_v200 fetch cs rq) (classify_v200 rq)
   \<and> fetch_listener fetch stamp (rename_storage cs) rq =
       map_option (\<lambda>r. (fst r, rename_storage (snd r))) (fetch_listener_v200 fetch stamp cs rq)
   \<and> map_option fst (fetch_listener fetch stamp cs rq) =
       map_option fst (fetch_listener_v200 fetch stamp cs rq)"
proof -
  have c: "classify_v200 rq = classify rq"
    by (simp add: classify_v200_def classify_def core_assets_same)
  have a: "fetch_listener fetch stamp cs rq =
       map_option (\<lambda>c. case c of
           ApiClass \<Rightarrow> handleApiRequest fetch stamp cs rq
         | CoreAssetClass \<Rightarrow> handleCoreAssetRequest fetch cs rq
         | DefaultClass \<Rightarrow> handleNetworkRequest fetch cs rq) (classify rq)"
    by (simp add: fetch_listener_def classify_def)
  have b: "fetch_listener_v200 fetch stamp cs rq =
       map_option (\<lambda>c. case c of
           ApiClass \<Rightarrow> handleApiRequest_v200 fetch stamp cs rq
         | CoreAssetClass \<Rightarrow> handleCoreAssetRequest_v200 fetch cs rq
         | DefaultClass \<Rightarrow> handleNetworkRequest_v200 fetch cs rq) (classify_v200 rq)"
    by (simp add: fetch_listener_v200_def classify_v200_def)
  have r: "fetch_listener fetch stamp (rename_storage cs) rq =
       map_option (\<lambda>r. (fst r, rename_storage (snd r))) (fetch_listener_v200 fetch stamp cs rq)"
    by (simp add: fetch_listener_def fetch_listener_v200_def core_assets_same
        handleApiRequest_rename handleCoreAssetRequest_rename handleNetworkRequest_rename)
  have s: "map_option fst (fetch_listener fetch stamp cs rq) =
       map_option fst (fetch_listener_v200 fetch stamp cs rq)"
    by (simp add: fetch_listener_def fetch_listener_v200_def core_assets_same
        handlers_same_response)
  from c a b r s show ?thesis by blast
qed

text \<open>
  The timesheet index is fetched with success by version 2.0.0 into its API cache;
  version 2.1.0, on the renamed storage, returns the same response and fills its own
  API cache.
\<close>

theorem versions_route_alike_witness:
  "fetch_listener (\<lambda>_. Some \<lparr>status = 200, statusText = ''OK'', headers = [], body = ''[]''\<rparr>)
     ''2025-06-01T05:00:00.000Z''
     (rename_storage [(API_CACHE_v200, [])])
     \<lparr>http_method = ''GET'', pathname = ''/v1/timesheets/index.json'',
      href = ''https://api.azantimes.in/v1/timesheets/index.json''\<rparr>
   = Some (\<lparr>status = 200, statusText = ''OK'', headers = [], body = ''[]''\<rparr>,
           [(API_CACHE,
             [(''https://api.azantimes.in/v1/timesheets/index.json'',
               \<lparr>status = 200, statusText = ''OK'',
                headers = [(''sw-cached-at'', ''2025-06-01T05:00:00.000Z'')], body = ''[]''\<rparr>)])])"
proof -
  let ?rq = "\<lparr>http_method = ''GET'', pathname = ''/v1/timesheets/index.json'',
      href = ''https://api.azantimes.in/v1/timesheets/index.json''\<rparr>"
  let ?f = "\<lambda>_::request. Some \<lparr>status = 200, statusText = ''OK'', headers = [], body = ''[]''\<rparr>"
  have old: "fetch_listener_v200 ?f ''2025-06-01T05:00:00.000Z'' [(API_CACHE_v200, [])] ?rq
    = Some (\<lparr>status = 200, statusText = ''OK'', headers = [], body = ''[]''\<rparr>,
           [(API_CACHE_v200,
             [(''https://api.azantimes.in/v1/timesheets/index.json'',
               \<lparr>status = 200, statusText = ''OK'',
                headers = [(''sw-cached-at'', ''2025-06-01T05:00:00.000Z'')], body = ''[]''\<rparr>)])])"
    by (simp add: fetch_listener_v200_def handleApiRequest_v200_def startsWith_def ok_def
        cache_put_def put_refused_def vary_star_def caches_open_def)
  have "fetch_listener ?f ''2025-06-01T05:00:00.000Z'' (rename_storage [(API_CACHE_v200, [])]) ?rq =
       map_option (\<lambda>r. (fst r, rename_storage (snd r)))
         (fetch_listener_v200 ?f ''2025-06-01T05:00:00.000Z'' [(API_CACHE_v200, [])] ?rq)"
    using versions_route_alike [of ?rq ?f "''2025-06-01T05:00:00.000Z''" "[(API_CACHE_v200, [])]"]
    by blast
  then show ?thesis
    by (simp only: old) (simp add: rename_storage_def rename_generation_v200)
qed

section \<open>Properties of the activation\<close>

lemma activate_filter: "activate_cleanup cs = filter (\<lambda>c. fst c \<in> current_names) cs"
proof -
  have "fold (\<lambda>cacheName acc.
             if cacheName \<noteq> CACHE_NAME \<and> cacheName \<noteq> API_CACHE \<and> cacheName \<noteq> OFFLINE_CACHE
             then caches_delete cacheName acc else acc) ns acc
        = filter (\<lambda>c. fst c \<in> current_names \<or> fst c \<notin> set ns) acc" for ns acc
    by (induction ns arbitrary: acc)
       (auto simp: caches_delete_def current_names_def intro: filter_cong)
  then show ?thesis
    by (auto simp: activate_cleanup_def caches_keys_def intro: filter_cong)
qed

text \<open>
  Claim C5, as the code has it. The clean-up of the activation keeps exactly the caches
  of the storage whose name is one of the three current names, each with its content and
  in its place, and deletes the others; a second run changes nothing. So after two runs
  the caches that exist are those of the three current names that existed at the start:
  the clean-up creates none.
\<close>

theorem activation_cleanup_idempotent:
  "activate_cleanup cs = filter (\<lambda>c. fst c \<in> current_names) cs
   \<and> activate_cleanup (activate_cleanup cs) = activate_cleanup cs
   \<and> set (caches_keys (activate_cleanup (activate_cleanup cs))) = set (caches_keys cs) \<inter> current_names"
proof -
  have 1: "activate_cleanup cs = filter (\<lambda>c. fst c \<in> current_names) cs"
    by (rule activate_filter)
  have 2: "activate_cleanup (activate_cleanup cs) = activate_cleanup cs"
    by (simp add: activate_filter)
  have 3: "set (caches_keys (activate_cleanup (activate_cleanup cs)))
           = set (caches_keys cs) \<inter> current_names"
    by (auto simp: activate_filter caches_keys_def)
  from 1 2 3 show ?thesis by blast
qed

text \<open>
  The upgrade from version 2.0.0: its three caches are deleted, the two the installation
  opened are kept.
\<close>

theorem activation_cleanup_idempotent_witness:
  "activate_cleanup (activate_cleanup
     [(CACHE_NAME_v200, []), (API_CACHE_v200, []), (OFFLINE_CACHE_v200, []),
      (CACHE_NAME, []), (API_CACHE, [])])
   = [(CACHE_NAME, []), (API_CACHE, [])]"
  using activation_cleanup_idempotent
    [of "[(CACHE_NAME_v200, []), (API_CACHE_v200, []), (OFFLINE_CACHE_v200, []),
          (CACHE_NAME, []), (API_CACHE, [])]"]
  by (simp add: activate_filter current_names_def CACHE_NAME_def API_CACHE_def OFFLINE_CACHE_def
      CACHE_NAME_v200_def API_CACHE_v200_def OFFLINE_CACHE_v200_def)

text \<open>
  Claim C5 as stated fails: the installation opens the core cache and the API cache only
  (the offline cache is opened by the first default-class request that succeeds), so
  after an upgrade from version 2.0.0 two runs of the clean-up leave two caches, not the
  three current ones.
\<close>

theorem activation_three_partitions_counterexample:
  "caches_keys (activate_cleanup (activate_cleanup
     [(CACHE_NAME_v200, []), (API_CACHE_v200, []), (OFFLINE_CACHE_v200, []),
      (CACHE_NAME, []), (API_CACHE, [])]))
   = [CACHE_NAME, API_CACHE]
   \<and> OFFLINE_CACHE \<in> current_names
   \<and> OFFLINE_CACHE \<notin> set (caches_keys (activate_cleanup (activate_cleanup
     [(CACHE_NAME_v200, []), (API_CACHE_v200, []), (OFFLINE_CACHE_v200, []),
      (CACHE_NAME, []), (API_CACHE, [])])))"
  by (simp add: activate_filter caches_keys_def current_names_def CACHE_NAME_def API_CACHE_def
      OFFLINE_CACHE_def CACHE_NAME_v200_def API_CACHE_v200_def OFFLINE_CACHE_v200_def)

section \<open>Properties of the recomputation\<close>

lemma dbPut_append_new: "kp x \<notin> set (map kp xs) \<Longrightarrow> dbPut kp x xs = xs @ [x]"
  by (induction xs) auto

lemma schedule_prayer_pending:
  "fst m \<notin> set (map entry_id acc) \<Longrightarrow>
   schedule_prayer clk sr pt m acc =
     acc @ (case pending_entry_for clk sr pt m of None \<Rightarrow> [] | Some e \<Rightarrow> [e])"
  by (auto simp: schedule_prayer_def pending_entry_for_def dbPut_append_new split: option.splits)

lemma pending_entry_id: "pending_entry_for clk sr pt m = Some e \<Longrightarrow> entry_id e = fst m"
  by (auto simp: pending_entry_for_def split: option.splits if_splits)

lemma fold_schedule_prayer:
  "distinct (map fst ms) \<Longrightarrow> set (map entry_id acc) \<inter> set (map fst ms) = {} \<Longrightarrow>
   fold (schedule_prayer clk sr pt) ms acc = acc @ List.map_filter (pending_entry_for clk sr pt) ms"
proof (induction ms arbitrary: acc)
  case Nil
  then show ?case by simp
next
  case (Cons m ms)
  have step: "schedule_prayer clk sr pt m acc =
     acc @ (case pending_entry_for clk sr pt m of None \<Rightarrow> [] | Some e \<Rightarrow> [e])"
    using Cons.prems by (intro schedule_prayer_pending) auto
  have disj: "set (map entry_id (schedule_prayer clk sr pt m acc)) \<inter> set (map fst ms) = {}"
  proof (cases "pending_entry_for clk sr pt m")
    case None
    then show ?thesis using Cons.prems by (auto simp: step)
  next
    case (Some e)
    then have "entry_id e = fst m" by (rule pending_entry_id)
    then show ?thesis using Cons.prems Some by (auto simp: step)
  qed
  have "fold (schedule_prayer clk sr pt) ms (schedule_prayer clk sr pt m acc)
        = schedule_prayer clk sr pt m acc @ List.map_filter (pending_entry_for clk sr pt) ms"
    using Cons.prems disj by (intro Cons.IH) auto
  then show ?case
    by (simp add: step split: option.splits)
qed

lemma timeMapping_distinct: "distinct (map fst timeMapping)"
  by (simp add: timeMapping_def)

lemma scheduleNotifications_enabled:
  assumes "enabled (getNotificationSettings d)" and "getPrayerTimes d = Some pt"
  shows "scheduleNotifications clk d =
     d\<lparr>db_scheduledNotifications :=
         List.map_filter (pending_entry_for clk (getNotificationSettings d) pt) timeMapping\<rparr>"
  using assms fold_schedule_prayer [OF timeMapping_distinct, of "[]" clk "getNotificationSettings d" pt]
  by (simp add: scheduleNotifications_def dbClear_def)

lemma scheduleNotifications_guard:
  "\<not> enabled (getNotificationSettings d) \<or> getPrayerTimes d = None \<Longrightarrow> scheduleNotifications clk d = d"
  by (auto simp: scheduleNotifications_def Let_def split: option.splits)

lemma set_map_filter: "set (List.map_filter f xs) = {y. \<exists>x \<in> set xs. f x = Some y}"
  by (induction xs) (auto split: option.splits)

lemma distinct_map_filter_ids:
  "distinct (map fst ms) \<Longrightarrow>
   distinct (map entry_id (List.map_filter (pending_entry_for clk sr pt) ms))"
proof (induction ms)
  case Nil
  then show ?case by simp
next
  case (Cons m ms)
  have "entry_id e \<in> fst ` set ms"
    if "e \<in> set (List.map_filter (pending_entry_for clk sr pt) ms)" for e
  proof -
    from that obtain x where x: "x \<in> set ms" "pending_entry_for clk sr pt x = Some e"
      by (auto simp: set_map_filter)
    from x(2) have "entry_id e = fst x" by (rule pending_entry_id)
    with x(1) show ?thesis by (simp add: image_iff) (metis fst_conv surj_pair)
  qed
  with Cons show ?case
    by (auto dest: pending_entry_id split: option.splits)
qed



lemma pending_entry_for_Some:
  "pending_entry_for clk sr pt m = Some e \<longleftrightarrow>
     (\<exists>s t. map_of (prayers sr) (fst m) = Some True
        \<and> map_of (properties pt) (snd m) = Some s \<and> s \<noteq> []
        \<and> parseTimeToDate (today clk) s = Some t \<and> now clk < t
        \<and> e = \<lparr>entry_id = fst m, prayer = fst m, time = t, timeStr = s, notified = False\<rparr>)"
  by (auto simp: pending_entry_for_def split: option.splits)

lemma mem_pending:
  "e \<in> set (List.map_filter (pending_entry_for clk sr pt) ms) \<longleftrightarrow>
          (\<exists>p k s t. (p, k) \<in> set ms
             \<and> map_of (prayers sr) p = Some True
             \<and> map_of (properties pt) k = Some s \<and> s \<noteq> []
             \<and> parseTimeToDate (today clk) s = Some t \<and> now clk < t
             \<and> e = \<lparr>entry_id = p, prayer = p, time = t, timeStr = s, notified = False\<rparr>)"
  (is "?l \<longleftrightarrow> ?r")
proof
  assume ?l
  then obtain m where m: "m \<in> set ms" "pending_entry_for clk sr pt m = Some e"
    by (auto simp: set_map_filter)
  from m(2) obtain s t where st: "map_of (prayers sr) (fst m) = Some True"
        "map_of (properties pt) (snd m) = Some s" "s \<noteq> []"
        "parseTimeToDate (today clk) s = Some t" "now clk < t"
        "e = \<lparr>entry_id = fst m, prayer = fst m, time = t, timeStr = s, notified = False\<rparr>"
    unfolding pending_entry_for_Some by blast
  have "(fst m, snd m) \<in> set ms" using m(1) by simp
  with st show ?r by blast
next
  assume ?r
  then obtain p k s t where h: "(p, k) \<in> set ms" "map_of (prayers sr) p = Some True"
        "map_of (properties pt) k = Some s" "s \<noteq> []"
        "parseTimeToDate (today clk) s = Some t" "now clk < t"
        "e = \<lparr>entry_id = p, prayer = p, time = t, timeStr = s, notified = False\<rparr>"
    by blast
  have "pending_entry_for clk sr pt (p, k) = Some e"
    unfolding pending_entry_for_Some using h by simp
  with h(1) show ?l
    unfolding set_map_filter by blast
qed

text \<open>
  Claim C2, as the code has it. When the stored settings have \<open>enabled\<close> on and a
  snapshot is stored, one recomputation leaves in the collection of scheduled
  notifications exactly the pending entries the specification asks for: one entry, not
  notified, with the parsed instant of today as fire time, for each prayer whose flag is
  on, whose time string under the provider key is not empty
  and parses, and whose instant is later than now; no two entries share an id, nothing
  of the former content is left, and settings and snapshot are untouched. When
  \<open>enabled\<close> is off or no snapshot is stored, the recomputation returns at once and
  leaves the database as it is, the collection included.
\<close>

theorem recomputation_replaces_pending:
  "(enabled (getNotificationSettings d) \<and> getPrayerTimes d = Some pt \<longrightarrow>
      db_scheduledNotifications (scheduleNotifications clk d)
        = List.map_filter (pending_entry_for clk (getNotificationSettings d) pt) timeMapping
    \<and> distinct (map entry_id (db_scheduledNotifications (scheduleNotifications clk d)))
    \<and> (\<forall>e. e \<in> set (db_scheduledNotifications (scheduleNotifications clk d)) \<longleftrightarrow>
          (\<exists>p k s t. (p, k) \<in> set timeMapping
             \<and> map_of (prayers (getNotificationSettings d)) p = Some True
             \<and> map_of (properties pt) k = Some s \<and> s \<noteq> []
             \<and> parseTimeToDate (today clk) s = Some t \<and> now clk < t
             \<and> e = \<lparr>entry_id = p, prayer = p, time = t, timeStr = s, notified = False\<rparr>))
    \<and> db_settings (scheduleNotifications clk d) = db_settings d
    \<and> db_prayerTimes (scheduleNotifications clk d) = db_prayerTimes d)
   \<and> (\<not> enabled (getNotificationSettings d) \<or> getPrayerTimes d = None \<longrightarrow>
        scheduleNotifications clk d = d)"
proof (intro conjI impI)
  assume h: "enabled (getNotificationSettings d) \<and> getPrayerTimes d = Some pt"
  let ?sr = "getNotificationSettings d"
  have eq: "scheduleNotifications clk d =
       d\<lparr>db_scheduledNotifications := List.map_filter (pending_entry_for clk ?sr pt) timeMapping\<rparr>"
    using h by (intro scheduleNotifications_enabled) auto
  show "db_scheduledNotifications (scheduleNotifications clk d)
        = List.map_filter (pending_entry_for clk ?sr pt) timeMapping"
    by (simp add: eq)
  show "distinct (map entry_id (db_scheduledNotifications (scheduleNotifications clk d)))"
    by (simp add: eq distinct_map_filter_ids timeMapping_distinct)
  show "\<forall>e. e \<in> set (db_scheduledNotifications (scheduleNotifications clk d)) \<longleftrightarrow>
          (\<exists>p k s t. (p, k) \<in> set timeMapping
             \<and> map_of (prayers ?sr) p = Some True
             \<and> map_of (properties pt) k = Some s \<and> s \<noteq> []
             \<and> parseTimeToDate (today clk) s = Some t \<and> now clk < t
             \<and> e = \<lparr>entry_id = p, prayer = p, time = t, timeStr = s, notified = False\<rparr>)"
    using mem_pending [of _ clk ?sr pt timeMapping] by (simp add: eq)
  show "db_settings (scheduleNotifications clk d) = db_settings d"
    by (simp add: eq)
  show "db_prayerTimes (scheduleNotifications clk d) = db_prayerTimes d"
    by (simp add: eq)
next
  assume "\<not> enabled (getNotificationSettings d) \<or> getPrayerTimes d = None"
  then show "scheduleNotifications clk d = d"
    by (rule scheduleNotifications_guard)
qed

text \<open>
  At 1:00 with Fajr at 5:15 AM: the entry of yesterday's Isha goes, the entry for Fajr
  is created; Sunrise is switched off and the Dhuhr time does not parse.
\<close>

theorem recomputation_replaces_pending_witness:
  "db_scheduledNotifications
     (scheduleNotifications \<lparr>now = 3600000, today = plain_day 0\<rparr>
        \<lparr>db_settings =
           [\<lparr>settings_id = ''notifications'', enabled = True,
             prayers = [(''fajr'', True), (''sunrise'', False), (''dhuhr'', True)]\<rparr>],
         db_prayerTimes =
           [\<lparr>snapshot_id = ''today'',
             properties = [(''subh'', ''5:15 AM''), (''sunrise'', ''6:30 AM''), (''duhr'', ''soon'')],
             updatedAt = 0\<rparr>],
         db_scheduledNotifications =
           [\<lparr>entry_id = ''isha'', prayer = ''isha'', time = - 15000000,
             timeStr = ''7:50 PM'', notified = True\<rparr>]\<rparr>)
   = [\<lparr>entry_id = ''fajr'', prayer = ''fajr'', time = 18900000,
       timeStr = ''5:15 AM'', notified = False\<rparr>]"
proof -
  let ?pt = "\<lparr>snapshot_id = ''today'',
             properties = [(''subh'', ''5:15 AM''), (''sunrise'', ''6:30 AM''), (''duhr'', ''soon'')],
             updatedAt = 0\<rparr>"
  let ?sr = "\<lparr>settings_id = ''notifications'', enabled = True,
             prayers = [(''fajr'', True), (''sunrise'', False), (''dhuhr'', True)]\<rparr>"
  let ?d = "\<lparr>db_settings = [?sr], db_prayerTimes = [?pt],
         db_scheduledNotifications =
           [\<lparr>entry_id = ''isha'', prayer = ''isha'', time = - 15000000,
             timeStr = ''7:50 PM'', notified = True\<rparr>]\<rparr>"
  let ?clk = "\<lparr>now = 3600000, today = plain_day 0\<rparr>"
  have s: "getNotificationSettings ?d = ?sr"
    by (simp add: getNotificationSettings_def dbGet_def)
  have p: "getPrayerTimes ?d = Some ?pt"
    by (simp add: getPrayerTimes_def dbGet_def)
  have v: "List.map_filter (pending_entry_for ?clk ?sr ?pt) timeMapping
     = [\<lparr>entry_id = ''fajr'', prayer = ''fajr'', time = 18900000,
       timeStr = ''5:15 AM'', notified = False\<rparr>]"
    by code_simp
  show ?thesis
    using recomputation_replaces_pending [of ?d ?pt ?clk] s p v by simp
qed

text \<open>
  Claim C2 as stated fails for a settings record with \<open>enabled\<close> off: the same database
  with notifications disabled keeps the fired entry of yesterday's Isha, whose fire time
  is in the past, and gets no entry for Fajr, although the Fajr flag is on and 5:15 AM
  parses to an instant later than now.
\<close>

theorem recomputation_disabled_counterexample:
  "db_scheduledNotifications
     (scheduleNotifications \<lparr>now = 3600000, today = plain_day 0\<rparr>
        \<lparr>db_settings =
           [\<lparr>settings_id = ''notifications'', enabled = False,
             prayers = [(''fajr'', True), (''sunrise'', False), (''dhuhr'', True)]\<rparr>],
         db_prayerTimes =
           [\<lparr>snapshot_id = ''today'',
             properties = [(''subh'', ''5:15 AM''), (''sunrise'', ''6:30 AM''), (''duhr'', ''soon'')],
             updatedAt = 0\<rparr>],
         db_scheduledNotifications =
           [\<lparr>entry_id = ''isha'', prayer = ''isha'', time = - 15000000,
             timeStr = ''7:50 PM'', notified = True\<rparr>]\<rparr>)
   = [\<lparr>entry_id = ''isha'', prayer = ''isha'', time = - 15000000,
       timeStr = ''7:50 PM'', notified = True\<rparr>]
   \<and> parseTimeToDate (plain_day 0) ''5:15 AM'' = Some 18900000"
  by code_simp

section \<open>Properties of the settings and of the gate of the scan\<close>

lemma dbGet_dbPut_same: "dbGet kp (dbPut kp x xs) (kp x) = Some x"
  by (induction xs) (auto simp: dbGet_def)

lemma scheduleNotifications_settings: "db_settings (scheduleNotifications clk d) = db_settings d"
  by (simp add: scheduleNotifications_def Let_def split: option.splits)

lemma scheduleNotifications_prayerTimes:
  "db_prayerTimes (scheduleNotifications clk d) = db_prayerTimes d"
  by (simp add: scheduleNotifications_def Let_def split: option.splits)

lemma scan_entry_settings:
  "db_settings (fst (scan_entry t n acc)) = db_settings (fst acc)"
  by (simp add: scan_entry_def Let_def)

lemma scan_entry_prayerTimes:
  "db_prayerTimes (fst (scan_entry t n acc)) = db_prayerTimes (fst acc)"
  by (simp add: scan_entry_def Let_def)

lemma fold_scan_entry_settings:
  "db_settings (fst (fold (scan_entry t) ns acc)) = db_settings (fst acc)"
  by (induction ns arbitrary: acc) (simp_all add: scan_entry_settings)

lemma fold_scan_entry_prayerTimes:
  "db_prayerTimes (fst (fold (scan_entry t) ns acc)) = db_prayerTimes (fst acc)"
  by (induction ns arbitrary: acc) (simp_all add: scan_entry_prayerTimes)

lemma scan_settings: "db_settings (fst (checkAndShowNotifications clk d)) = db_settings d"
  by (simp add: checkAndShowNotifications_def fold_scan_entry_settings)

lemma scan_prayerTimes: "db_prayerTimes (fst (checkAndShowNotifications clk d)) = db_prayerTimes d"
  by (simp add: checkAndShowNotifications_def fold_scan_entry_prayerTimes)

text \<open>
  Claim C9. A scan is gated on the \<open>enabled\<close> flag of the settings: when no settings
  record is stored (the default has \<open>enabled\<close> off) or the stored one has \<open>enabled\<close>
  off, \<open>checkAndShowNotifications\<close> shows no notification and returns the database as it
  found it, whatever the scheduled entries and the time of the scan.
\<close>

theorem scan_gated_on_enabled:
  "(dbGet settings_id (db_settings d) ''notifications'' = None
      \<or> (\<exists>s. dbGet settings_id (db_settings d) ''notifications'' = Some s \<and> \<not> enabled s))
   \<longrightarrow> checkAndShowNotifications clk d = (d, [])"
  by (auto simp: checkAndShowNotifications_def getNotificationSettings_def default_settings_def)

text \<open>
  No settings are stored and the Fajr entry is due this very millisecond: the scan shows
  nothing and the entry stays pending.
\<close>

theorem scan_gated_on_enabled_witness:
  "checkAndShowNotifications \<lparr>now = 18900000, today = plain_day 0\<rparr>
     \<lparr>db_settings = [],
      db_prayerTimes = [],
      db_scheduledNotifications =
        [\<lparr>entry_id = ''fajr'', prayer = ''fajr'', time = 18900000,
          timeStr = ''5:15 AM'', notified = False\<rparr>]\<rparr>
   = (\<lparr>db_settings = [],
      db_prayerTimes = [],
      db_scheduledNotifications =
        [\<lparr>entry_id = ''fajr'', prayer = ''fajr'', time = 18900000,
          timeStr = ''5:15 AM'', notified = False\<rparr>]\<rparr>, [])"
  using scan_gated_on_enabled
    [of "\<lparr>db_settings = [],
      db_prayerTimes = [],
      db_scheduledNotifications =
        [\<lparr>entry_id = ''fajr'', prayer = ''fajr'', time = 18900000,
          timeStr = ''5:15 AM'', notified = False\<rparr>]\<rparr>" "\<lparr>now = 18900000, today = plain_day 0\<rparr>"]
  by (simp add: dbGet_def)

text \<open>
  Claim C8, as the code has it. When no settings record is stored, reading the settings
  gives the default record (notifications off; every prayer on but sunrise) and stores
  nothing: after a scan or a recomputation, which both begin by reading the settings,
  there is still no record. The message \<open>UPDATE_NOTIFICATION_SETTINGS\<close> puts the record
  made of the payload under the key \<open>notifications\<close>, in place of any former one, and
  then runs the recomputation; the settings read afterwards are the payload's.
\<close>

theorem settings_defaults_and_update:
  "(dbGet settings_id (db_settings d) ''notifications'' = None \<longrightarrow>
      getNotificationSettings d =
        \<lparr>settings_id = ''notifications'', enabled = False,
         prayers = [(''fajr'', True), (''sunrise'', False), (''dhuhr'', True),
                    (''asr'', True), (''maghrib'', True), (''isha'', True)]\<rparr>
    \<and> dbGet settings_id (db_settings (fst (checkAndShowNotifications clk d))) ''notifications'' = None
    \<and> dbGet settings_id (db_settings (scheduleNotifications clk d)) ''notifications'' = None)
   \<and> db (fst (message_listener clk (UPDATE_NOTIFICATION_SETTINGS payload) w)) =
       scheduleNotifications clk
         ((db w)\<lparr>db_settings :=
             dbPut settings_id
               \<lparr>settings_id = ''notifications'', enabled = data_enabled payload,
                prayers = data_prayers payload\<rparr> (db_settings (db w))\<rparr>)
   \<and> getNotificationSettings (db (fst (message_listener clk (UPDATE_NOTIFICATION_SETTINGS payload) w))) =
       \<lparr>settings_id = ''notifications'', enabled = data_enabled payload,
        prayers = data_prayers payload\<rparr>"
proof (intro conjI impI)
  assume a: "dbGet settings_id (db_settings d) ''notifications'' = None"
  show "getNotificationSettings d =
        \<lparr>settings_id = ''notifications'', enabled = False,
         prayers = [(''fajr'', True), (''sunrise'', False), (''dhuhr'', True),
                    (''asr'', True), (''maghrib'', True), (''isha'', True)]\<rparr>"
    using a by (simp add: getNotificationSettings_def default_settings_def)
  show "dbGet settings_id (db_settings (fst (checkAndShowNotifications clk d))) ''notifications'' = None"
    using a by (simp add: scan_settings)
  show "dbGet settings_id (db_settings (scheduleNotifications clk d)) ''notifications'' = None"
    using a by (simp add: scheduleNotifications_settings)
next
  show "db (fst (message_listener clk (UPDATE_NOTIFICATION_SETTINGS payload) w)) =
       scheduleNotifications clk
         ((db w)\<lparr>db_settings :=
             dbPut settings_id
               \<lparr>settings_id = ''notifications'', enabled = data_enabled payload,
                prayers = data_prayers payload\<rparr> (db_settings (db w))\<rparr>)"
    by simp
  have "dbGet settings_id
          (dbPut settings_id
               \<lparr>settings_id = ''notifications'', enabled = data_enabled payload,
                prayers = data_prayers payload\<rparr> (db_settings (db w))) ''notifications''
        = Some \<lparr>settings_id = ''notifications'', enabled = data_enabled payload,
                prayers = data_prayers payload\<rparr>"
    using dbGet_dbPut_same [of settings_id "\<lparr>settings_id = ''notifications'', enabled = data_enabled payload,
                prayers = data_prayers payload\<rparr>" "db_settings (db w)"]
    by simp
  then show "getNotificationSettings (db (fst (message_listener clk (UPDATE_NOTIFICATION_SETTINGS payload) w))) =
       \<lparr>settings_id = ''notifications'', enabled = data_enabled payload,
        prayers = data_prayers payload\<rparr>"
    by (simp add: getNotificationSettings_def scheduleNotifications_settings)
qed

text \<open>
  On the empty database the settings read are the defaults; an update that switches the
  notifications on with Fajr alone replaces whatever was stored.
\<close>

theorem settings_defaults_and_update_witness:
  "getNotificationSettings \<lparr>db_settings = [], db_prayerTimes = [], db_scheduledNotifications = []\<rparr> =
        \<lparr>settings_id = ''notifications'', enabled = False,
         prayers = [(''fajr'', True), (''sunrise'', False), (''dhuhr'', True),
                    (''asr'', True), (''maghrib'', True), (''isha'', True)]\<rparr>
   \<and> getNotificationSettings
        (db (fst (message_listener \<lparr>now = 3600000, today = plain_day 0\<rparr>
           (UPDATE_NOTIFICATION_SETTINGS \<lparr>data_enabled = True, data_prayers = [(''fajr'', True)]\<rparr>)
           \<lparr>caches = [],
            db = \<lparr>db_settings =
                    [\<lparr>settings_id = ''notifications'', enabled = False,
                      prayers = [(''isha'', True)]\<rparr>],
                  db_prayerTimes = [], db_scheduledNotifications = []\<rparr>\<rparr>)))
      = \<lparr>settings_id = ''notifications'', enabled = True, prayers = [(''fajr'', True)]\<rparr>"
  using settings_defaults_and_update
    [of "\<lparr>db_settings = [], db_prayerTimes = [], db_scheduledNotifications = []\<rparr>"
        "\<lparr>now = 3600000, today = plain_day 0\<rparr>"
        "\<lparr>data_enabled = True, data_prayers = [(''fajr'', True)]\<rparr>"
        "\<lparr>caches = [],
            db = \<lparr>db_settings =
                    [\<lparr>settings_id = ''notifications'', enabled = False,
                      prayers = [(''isha'', True)]\<rparr>],
                  db_prayerTimes = [], db_scheduledNotifications = []\<rparr>\<rparr>"]
  by (simp add: dbGet_def)

text \<open>
  Claim C8 as stated fails in its first part: the first read creates no record. On the
  empty database a timer tick (a scan, which reads the settings) and then a recomputation
  leave the object store of the settings empty.
\<close>

theorem settings_read_creates_nothing_counterexample:
  "dbGet settings_id
     (db_settings (db (fst (run
        [(\<lparr>now = 3600000, today = plain_day 0\<rparr>, TimerTick),
         (\<lparr>now = 3630000, today = plain_day 0\<rparr>, Message SCHEDULE_NOTIFICATIONS)]
        \<lparr>caches = [],
         db = \<lparr>db_settings = [], db_prayerTimes = [], db_scheduledNotifications = []\<rparr>\<rparr>))))
     ''notifications'' = None
   \<and> db_settings (db (fst (run
        [(\<lparr>now = 3600000, today = plain_day 0\<rparr>, TimerTick),
         (\<lparr>now = 3630000, today = plain_day 0\<rparr>, Message SCHEDULE_NOTIFICATIONS)]
        \<lparr>caches = [],
         db = \<lparr>db_settings = [], db_prayerTimes = [], db_scheduledNotifications = []\<rparr>\<rparr>))) = []"
  by code_simp

section \<open>Properties of parseTimeToDate\<close>

lemma units_colon: "units '':'' = [58]"
  by (simp add: units_def)

lemma period_cases:
  "is_period x y \<longleftrightarrow> (x = 65 \<or> x = 97 \<or> x = 80 \<or> x = 112) \<and> (y = 77 \<or> y = 109)"
  by (simp add: is_period_def units_def)

lemma period_not_space: "is_period x y \<Longrightarrow> \<not> is_space x"
  unfolding period_cases is_space_def by auto

lemma convert_hours_hour24:
  "is_period x y \<Longrightarrow> convert_hours (map toUpperCase [x, y]) h = hour24 [x, y] h"
  unfolding period_cases
  by (elim conjE disjE) (simp_all add: toUpperCase_def convert_hours_def hour24_def units_def)

lemma match_rest_Some:
  assumes "match_rest g1 s = Some (a, b, c)"
  shows "a = g1 \<and> (\<exists>ws post x y. s = [58] @ b @ ws @ c @ post \<and> length b = 2
           \<and> list_all is_digit b \<and> list_all is_space ws \<and> c = [x, y] \<and> is_period x y)"
proof -
  from assms obtain m1 m2 r where s: "s = 58 # m1 # m2 # r" and d: "is_digit m1" "is_digit m2"
    by (auto simp: match_rest_def units_colon split: list.splits if_splits)
  from assms s d obtain x y post where dw: "dropWhile is_space r = x # y # post" and p: "is_period x y"
    and res: "a = g1" "b = [m1, m2]" "c = [x, y]"
    by (auto simp: match_rest_def units_colon split: list.splits if_splits)
  have "r = takeWhile is_space r @ x # y # post"
    using dw takeWhile_dropWhile_id [of is_space r] by simp
  moreover have "list_all is_space (takeWhile is_space r)"
    by (simp add: list_all_iff) (meson set_takeWhileD)
  ultimately show ?thesis
    using s d p res by (intro conjI exI [of _ "takeWhile is_space r"] exI [of _ post] exI [of _ x] exI [of _ y]) auto
qed

lemma match_rest_group: "match_rest g s = Some (a, b, c) \<Longrightarrow> a = g"
  by (auto simp: match_rest_def split: list.splits if_splits)

lemma match_here_rest:
  assumes "match_here s = Some (a, b, c)"
  shows "\<exists>r. s = a @ r \<and> (length a = 1 \<or> length a = 2) \<and> list_all is_digit a
           \<and> match_rest a r = Some (a, b, c)"
proof (cases s)
  case Nil
  with assms show ?thesis by (simp add: match_here_def)
next
  case (Cons d1 r1)
  with assms have d1: "is_digit d1"
    by (auto simp: match_here_def split: if_splits)
  have one: ?thesis if m: "match_rest [d1] r1 = Some (a, b, c)"
  proof -
    from match_rest_group [OF m] have "a = [d1]" .
    with m Cons d1 show ?thesis by simp
  qed
  show ?thesis
  proof (cases r1)
    case Nil
    with assms Cons d1 have "match_rest [d1] r1 = Some (a, b, c)"
      by (simp add: match_here_def)
    then show ?thesis by (rule one)
  next
    case (Cons d2 r2)
    note r1 = this
    show ?thesis
    proof (cases "is_digit d2 \<and> match_rest [d1, d2] r2 \<noteq> None")
      case True
      with assms \<open>s = d1 # r1\<close> r1 d1 have m: "match_rest [d1, d2] r2 = Some (a, b, c)"
        by (auto simp: match_here_def)
      from match_rest_group [OF m] have "a = [d1, d2]" .
      with m \<open>s = d1 # r1\<close> r1 d1 True show ?thesis by simp
    next
      case False
      with assms \<open>s = d1 # r1\<close> r1 d1 have "match_rest [d1] r1 = Some (a, b, c)"
        by (auto simp: match_here_def split: if_splits option.splits)
      then show ?thesis by (rule one)
    qed
  qed
qed

lemma match_here_Some:
  assumes "match_here s = Some (a, b, c)"
  shows "\<exists>ws post. s = a @ units '':'' @ b @ ws @ c @ post \<and> time_text a b ws c"
proof -
  from match_here_rest [OF assms] obtain r where r: "s = a @ r" "length a = 1 \<or> length a = 2"
      "list_all is_digit a" "match_rest a r = Some (a, b, c)"
    by blast
  from match_rest_Some [OF r(4)] obtain ws post x y where
    "r = [58] @ b @ ws @ c @ post" "length b = 2" "list_all is_digit b" "list_all is_space ws"
    "c = [x, y]" "is_period x y"
    by blast
  then have "s = a @ units '':'' @ b @ ws @ c @ post \<and> time_text a b ws c"
    using r by (simp add: time_text_def is_period_def units_colon)
  then show ?thesis by blast
qed

lemma dropWhile_spaces:
  "list_all is_space ws \<Longrightarrow> \<not> is_space x \<Longrightarrow> dropWhile is_space (ws @ x # r) = x # r"
  by (induction ws) auto

lemma match_rest_complete:
  assumes "length mm = 2" "list_all is_digit mm" "list_all is_space ws" "is_period x y"
  shows "match_rest g (units '':'' @ mm @ ws @ [x, y] @ post) = Some (g, mm, [x, y])"
proof -
  from assms(1) obtain m1 m2 where mm: "mm = [m1, m2]"
    by (cases mm; cases "tl mm") auto
  show ?thesis
    using assms dropWhile_spaces [of ws x "y # post"] period_not_space [of x y]
    by (simp add: mm match_rest_def units_colon)
qed

lemma match_here_complete:
  assumes "time_text hh mm ws ap"
  shows "match_here (hh @ units '':'' @ mm @ ws @ ap @ post) = Some (hh, mm, ap)"
proof -
  from assms obtain x y where ap: "ap = [x, y]" "is_period x y"
    by (auto simp: time_text_def is_period_def split: list.splits)
  have rest: "match_rest g (units '':'' @ mm @ ws @ ap @ post) = Some (g, mm, ap)" for g
    using assms ap match_rest_complete [of mm ws x y g post] by (simp add: time_text_def)
  have colon: "\<not> is_digit 58" by (simp add: is_digit_def)
  from assms consider d1 where "hh = [d1]" "is_digit d1"
    | d1 d2 where "hh = [d1, d2]" "is_digit d1" "is_digit d2"
    by (cases hh; cases "tl hh") (auto simp: time_text_def)
  then show ?thesis
  proof cases
    case 1
    then show ?thesis using rest [of "[d1]"] colon by (simp add: match_here_def units_colon)
  next
    case 2
    then show ?thesis using rest [of "[d1, d2]"] by (simp add: match_here_def)
  qed
qed

lemma match_here_None_iff: "match_here s = None \<longleftrightarrow> \<not> begins_time_text s"
proof
  assume n: "match_here s = None"
  show "\<not> begins_time_text s"
  proof
    assume "begins_time_text s"
    then obtain hh mm ws ap post where
      "s = hh @ units '':'' @ mm @ ws @ ap @ post" "time_text hh mm ws ap"
      by (auto simp: begins_time_text_def)
    with match_here_complete [of hh mm ws ap post] n show False by simp
  qed
next
  assume n: "\<not> begins_time_text s"
  show "match_here s = None"
  proof (rule ccontr)
    assume "match_here s \<noteq> None"
    then obtain a b c where "match_here s = Some (a, b, c)"
      by (cases "match_here s") auto
    from match_here_Some [OF this] obtain ws post where
      "s = a @ units '':'' @ b @ ws @ c @ post" "time_text a b ws c"
      by blast
    then have "begins_time_text s"
      unfolding begins_time_text_def by blast
    with n show False by simp
  qed
qed

lemma regex_match_Some:
  "regex_match s = Some (a, b, c) \<Longrightarrow>
   \<exists>pre ws post. s = pre @ a @ units '':'' @ b @ ws @ c @ post \<and> time_text a b ws c
      \<and> (\<forall>n<length pre. match_here (drop n s) = None)"
proof (induction s)
  case Nil
  then show ?case by simp
next
  case (Cons x s)
  show ?case
  proof (cases "match_here (x # s)")
    case None
    with Cons.prems have "regex_match s = Some (a, b, c)" by simp
    from Cons.IH [OF this] obtain pre ws post where
      d: "s = pre @ a @ units '':'' @ b @ ws @ c @ post" "time_text a b ws c"
      and l: "\<forall>n<length pre. match_here (drop n s) = None"
      by blast
    have "match_here (drop n (x # s)) = None" if "n < length (x # pre)" for n
      using that None l by (cases n) auto
    with d have "x # s = (x # pre) @ a @ units '':'' @ b @ ws @ c @ post \<and> time_text a b ws c
      \<and> (\<forall>n<length (x # pre). match_here (drop n (x # s)) = None)"
      by simp
    then show ?thesis by blast
  next
    case (Some g)
    with Cons.prems have "match_here (x # s) = Some (a, b, c)" by simp
    from match_here_Some [OF this] obtain ws post where
      "x # s = [] @ a @ units '':'' @ b @ ws @ c @ post \<and> time_text a b ws c
       \<and> (\<forall>n<length ([]::int list). match_here (drop n (x # s)) = None)"
      by auto
    then show ?thesis by blast
  qed
qed

lemma regex_match_leftmost:
  "match_here x = Some g \<Longrightarrow> (\<forall>n<length pre. match_here (drop n (pre @ x)) = None) \<Longrightarrow>
   regex_match (pre @ x) = Some g"
proof (induction pre)
  case Nil
  then show ?case by (cases x) (auto simp: match_here_def)
next
  case (Cons c pre)
  from Cons.prems(2) have 0: "match_here (c # pre @ x) = None"
    by (auto dest: spec [of _ 0])
  have "match_here (drop n (pre @ x)) = None" if "n < length pre" for n
    using Cons.prems(2) that by (auto dest: spec [of _ "Suc n"])
  with Cons.IH [OF Cons.prems(1)] have "regex_match (pre @ x) = Some g"
    by blast
  with 0 show ?case by simp
qed

lemma regex_match_complete:
  "match_here x \<noteq> None \<Longrightarrow> regex_match (pre @ x) \<noteq> None"
proof (induction pre)
  case Nil
  then show ?case by (cases x) (auto simp: match_here_def)
next
  case (Cons c pre)
  then show ?case by (auto split: option.splits)
qed

lemma regex_match_None_iff:
  "regex_match s = None \<longleftrightarrow>
   \<not> (\<exists>pre hh mm ws ap post. s = pre @ hh @ units '':'' @ mm @ ws @ ap @ post \<and> time_text hh mm ws ap)"
proof
  assume n: "regex_match s = None"
  show "\<not> (\<exists>pre hh mm ws ap post. s = pre @ hh @ units '':'' @ mm @ ws @ ap @ post \<and> time_text hh mm ws ap)"
  proof
    assume "\<exists>pre hh mm ws ap post. s = pre @ hh @ units '':'' @ mm @ ws @ ap @ post \<and> time_text hh mm ws ap"
    then obtain pre hh mm ws ap post where
      s: "s = pre @ (hh @ units '':'' @ mm @ ws @ ap @ post)" and t: "time_text hh mm ws ap"
      by auto
    have "match_here (hh @ units '':'' @ mm @ ws @ ap @ post) \<noteq> None"
      using match_here_complete [OF t] by simp
    from regex_match_complete [OF this] have "regex_match s \<noteq> None"
      unfolding s .
    with n show False by simp
  qed
next
  assume n: "\<not> (\<exists>pre hh mm ws ap post. s = pre @ hh @ units '':'' @ mm @ ws @ ap @ post \<and> time_text hh mm ws ap)"
  show "regex_match s = None"
  proof (rule ccontr)
    assume "regex_match s \<noteq> None"
    then obtain a b c where "regex_match s = Some (a, b, c)"
      by (cases "regex_match s") auto
    from regex_match_Some [OF this] n show False by blast
  qed
qed

lemma parse_value:
  assumes "regex_match s = Some (a, b, c)" and "time_text a b ws c"
  shows "parseTimeToDate_units day s = Some (day (hour24 c (parseInt a)) (parseInt b) 0)"
proof -
  from assms(2) obtain x y where c: "c = [x, y]" "is_period x y"
    by (auto simp: time_text_def is_period_def split: list.splits)
  from assms(1) have "s \<noteq> []" by auto
  then show ?thesis
    using assms(1) convert_hours_hour24 [OF c(2)]
    by (simp add: parseTimeToDate_units_def c(1))
qed

text \<open>
  Claim C7. \<open>parseTimeToDate\<close> returns a value on every string. It returns null exactly
  when the string holds no time text (one or two digits, a colon, two digits, white space
  or none, AM or PM in any case); the empty string is such a string. It returns an
  instant exactly when the string holds a time text, and the instant is that of the
  leftmost one, the time text before whose start no time text begins: the local
  wall-clock time of today's date at the hour of the 24-hour clock (PM adds 12 except at
  12, 12 AM is hour 0), the minutes of the text and second 0. A string of the model is
  parsed as its code units. In the recomputation, a time string that does not parse
  leaves the scheduled entries as they are at that turn of the loop, which goes on with
  the next prayer.
\<close>

theorem parseTimeToDate_total:
  "(parseTimeToDate_units day s = None \<longleftrightarrow>
      \<not> (\<exists>pre hh mm ws ap post. s = pre @ hh @ units '':'' @ mm @ ws @ ap @ post \<and> time_text hh mm ws ap))
   \<and> (\<forall>t. parseTimeToDate_units day s = Some t \<longleftrightarrow>
         (\<exists>pre hh mm ws ap post. s = pre @ hh @ units '':'' @ mm @ ws @ ap @ post \<and> time_text hh mm ws ap
            \<and> (\<forall>n<length pre. \<not> begins_time_text (drop n s))
            \<and> t = day (hour24 ap (parseInt hh)) (parseInt mm) 0))
   \<and> parseTimeToDate day str = parseTimeToDate_units day (units str)
   \<and> (\<forall>clk sr pt k scheduled.
         map_of (properties pt) (snd k) = Some str \<and> parseTimeToDate (today clk) str = None \<longrightarrow>
           schedule_prayer clk sr pt k scheduled = scheduled)"
proof (intro conjI allI impI)
  show "parseTimeToDate_units day s = None \<longleftrightarrow>
      \<not> (\<exists>pre hh mm ws ap post. s = pre @ hh @ units '':'' @ mm @ ws @ ap @ post \<and> time_text hh mm ws ap)"
  proof (cases "regex_match s")
    case None
    then show ?thesis
      using regex_match_None_iff [of s] by (simp add: parseTimeToDate_units_def)
  next
    case (Some g)
    obtain a b c where g: "g = (a, b, c)" by (cases g) auto
    from regex_match_Some [of s a b c] Some g obtain pre ws post where
      d: "s = pre @ a @ units '':'' @ b @ ws @ c @ post" "time_text a b ws c"
      by auto
    from parse_value [of s a b c ws day] Some g d(2)
    have "parseTimeToDate_units day s \<noteq> None" by simp
    with d show ?thesis by blast
  qed
next
  fix t
  show "parseTimeToDate_units day s = Some t \<longleftrightarrow>
         (\<exists>pre hh mm ws ap post. s = pre @ hh @ units '':'' @ mm @ ws @ ap @ post \<and> time_text hh mm ws ap
            \<and> (\<forall>n<length pre. \<not> begins_time_text (drop n s))
            \<and> t = day (hour24 ap (parseInt hh)) (parseInt mm) 0)"
  proof
    assume p: "parseTimeToDate_units day s = Some t"
    then obtain a b c where g: "regex_match s = Some (a, b, c)"
      by (auto simp: parseTimeToDate_units_def split: if_splits option.splits)
    from regex_match_Some [OF g] obtain pre ws post where
      d: "s = pre @ a @ units '':'' @ b @ ws @ c @ post" "time_text a b ws c"
      and l: "\<forall>n<length pre. match_here (drop n s) = None"
      by blast
    from l have l': "\<forall>n<length pre. \<not> begins_time_text (drop n s)"
      by (simp add: match_here_None_iff)
    from parse_value [OF g d(2), of day] p
    have "t = day (hour24 c (parseInt a)) (parseInt b) 0" by simp
    with d l' show "\<exists>pre hh mm ws ap post. s = pre @ hh @ units '':'' @ mm @ ws @ ap @ post
            \<and> time_text hh mm ws ap
            \<and> (\<forall>n<length pre. \<not> begins_time_text (drop n s))
            \<and> t = day (hour24 ap (parseInt hh)) (parseInt mm) 0"
      by blast
  next
    assume "\<exists>pre hh mm ws ap post. s = pre @ hh @ units '':'' @ mm @ ws @ ap @ post
            \<and> time_text hh mm ws ap
            \<and> (\<forall>n<length pre. \<not> begins_time_text (drop n s))
            \<and> t = day (hour24 ap (parseInt hh)) (parseInt mm) 0"
    then obtain pre hh mm ws ap post where
      s: "s = pre @ (hh @ units '':'' @ mm @ ws @ ap @ post)" and tt: "time_text hh mm ws ap"
      and l: "\<forall>n<length pre. \<not> begins_time_text (drop n s)"
      and t: "t = day (hour24 ap (parseInt hh)) (parseInt mm) 0"
      by auto
    from l have "\<forall>n<length pre. match_here (drop n (pre @ (hh @ units '':'' @ mm @ ws @ ap @ post))) = None"
      by (simp add: match_here_None_iff s)
    from regex_match_leftmost [OF match_here_complete [OF tt] this]
    have "regex_match s = Some (hh, mm, ap)" by (simp add: s)
    from parse_value [OF this tt, of day] t show "parseTimeToDate_units day s = Some t"
      by simp
  qed
next
  show "parseTimeToDate day str = parseTimeToDate_units day (units str)"
    by (simp add: parseTimeToDate_def)
next
  fix clk :: clock and sr :: settings_record and pt :: prayer_times
    and k :: "string \<times> string" and scheduled :: "entry list"
  assume "map_of (properties pt) (snd k) = Some str \<and> parseTimeToDate (today clk) str = None"
  then show "schedule_prayer clk sr pt k scheduled = scheduled"
    by (simp add: schedule_prayer_def)
qed

text \<open>
  On a day without a change of the local offset that begins at instant 0: \<open>5:15 AM\<close> is
  5 hours and 15 minutes after midnight, \<open>12:30 PM\<close> is half past noon and \<open>12:05 AM\<close>
  five minutes after midnight, as the time text that begins each string says; of the two
  time texts of \<open>at 7:45pm, 8:00 am\<close> the first is taken; white space above U+00FF (an em
  space, U+2003) may stand before the period; \<open>soon\<close> holds no time text and gives null,
  and the turn of the recomputation for Dhuhr, whose time string it is, leaves the entry
  already scheduled for Fajr as it is.
  On a day on which the clocks go forward from 02:00 to 03:00, \<open>5:15 AM\<close> is 4 hours and
  15 minutes after midnight.
\<close>

theorem parseTimeToDate_total_witness:
  "parseTimeToDate (plain_day 0) ''5:15 AM'' = Some 18900000
   \<and> parseTimeToDate (plain_day 0) ''12:30 PM'' = Some 45000000
   \<and> parseTimeToDate (plain_day 0) ''12:05 AM'' = Some 300000
   \<and> parseTimeToDate (plain_day 0) ''at 7:45pm, 8:00 am'' = Some 71100000
   \<and> parseTimeToDate_units (plain_day 0) (units ''12:30'' @ [0x2003] @ units ''pm'') = Some 45000000
   \<and> parseTimeToDate (spring_forward_day 0) ''5:15 AM'' = Some 15300000
   \<and> parseTimeToDate (plain_day 0) ''soon'' = None
   \<and> \<not> (\<exists>pre hh mm ws ap post. units ''soon'' = pre @ hh @ units '':'' @ mm @ ws @ ap @ post
          \<and> time_text hh mm ws ap)
   \<and> schedule_prayer \<lparr>now = 3600000, today = plain_day 0\<rparr>
         \<lparr>settings_id = ''notifications'', enabled = True,
          prayers = [(''fajr'', True), (''sunrise'', False), (''dhuhr'', True)]\<rparr>
         \<lparr>snapshot_id = ''today'',
          properties = [(''subh'', ''5:15 AM''), (''sunrise'', ''6:30 AM''), (''duhr'', ''soon'')],
          updatedAt = 0\<rparr>
         (''dhuhr'', ''duhr'')
         [\<lparr>entry_id = ''fajr'', prayer = ''fajr'', time = 18900000,
           timeStr = ''5:15 AM'', notified = False\<rparr>]
       = [\<lparr>entry_id = ''fajr'', prayer = ''fajr'', time = 18900000,
           timeStr = ''5:15 AM'', notified = False\<rparr>]"
proof -
  have leftmost:
    "parseTimeToDate_units day (pre @ hh @ units '':'' @ mm @ ws @ ap @ post)
       = Some (day (hour24 ap (parseInt hh)) (parseInt mm) 0)"
    if "time_text hh mm ws ap"
      and "\<forall>n<length pre. \<not> begins_time_text (drop n (pre @ hh @ units '':'' @ mm @ ws @ ap @ post))"
    for day pre hh mm ws ap post
    using that parseTimeToDate_total [of day "pre @ hh @ units '':'' @ mm @ ws @ ap @ post"]
    by blast
  have wrap: "parseTimeToDate day str = parseTimeToDate_units day (units str)" for day str
    using parseTimeToDate_total [of day "[]" str] by blast
  have a: "parseTimeToDate (plain_day 0) ''5:15 AM'' = Some 18900000"
  proof -
    have "time_text (units ''5'') (units ''15'') (units '' '') (units ''AM'')"
      by code_simp
    from leftmost [where pre = "[]" and post = "[]" and day = "plain_day 0", OF this]
    have "parseTimeToDate_units (plain_day 0) (units ''5'' @ units '':'' @ units ''15'' @ units '' '' @ units ''AM'')
          = Some (plain_day 0 (hour24 (units ''AM'') (parseInt (units ''5''))) (parseInt (units ''15'')) 0)"
      by simp
    moreover have "plain_day 0 (hour24 (units ''AM'') (parseInt (units ''5''))) (parseInt (units ''15'')) 0 = 18900000"
      by code_simp
    moreover have "units ''5'' @ units '':'' @ units ''15'' @ units '' '' @ units ''AM'' = units ''5:15 AM''"
      by (simp add: units_def)
    ultimately show ?thesis by (simp add: wrap)
  qed
  have b: "parseTimeToDate (plain_day 0) ''12:30 PM'' = Some 45000000"
  proof -
    have "time_text (units ''12'') (units ''30'') (units '' '') (units ''PM'')"
      by code_simp
    from leftmost [where pre = "[]" and post = "[]" and day = "plain_day 0", OF this]
    have "parseTimeToDate_units (plain_day 0) (units ''12'' @ units '':'' @ units ''30'' @ units '' '' @ units ''PM'')
          = Some (plain_day 0 (hour24 (units ''PM'') (parseInt (units ''12''))) (parseInt (units ''30'')) 0)"
      by simp
    moreover have "plain_day 0 (hour24 (units ''PM'') (parseInt (units ''12''))) (parseInt (units ''30'')) 0 = 45000000"
      by code_simp
    moreover have "units ''12'' @ units '':'' @ units ''30'' @ units '' '' @ units ''PM'' = units ''12:30 PM''"
      by (simp add: units_def)
    ultimately show ?thesis by (simp add: wrap)
  qed
  have c: "parseTimeToDate (plain_day 0) ''12:05 AM'' = Some 300000"
  proof -
    have "time_text (units ''12'') (units ''05'') (units '' '') (units ''AM'')"
      by code_simp
    from leftmost [where pre = "[]" and post = "[]" and day = "plain_day 0", OF this]
    have "parseTimeToDate_units (plain_day 0) (units ''12'' @ units '':'' @ units ''05'' @ units '' '' @ units ''AM'')
          = Some (plain_day 0 (hour24 (units ''AM'') (parseInt (units ''12''))) (parseInt (units ''05'')) 0)"
      by simp
    moreover have "plain_day 0 (hour24 (units ''AM'') (parseInt (units ''12''))) (parseInt (units ''05'')) 0 = 300000"
      by code_simp
    moreover have "units ''12'' @ units '':'' @ units ''05'' @ units '' '' @ units ''AM'' = units ''12:05 AM''"
      by (simp add: units_def)
    ultimately show ?thesis by (simp add: wrap)
  qed
  have d: "parseTimeToDate (plain_day 0) ''at 7:45pm, 8:00 am'' = Some 71100000"
  proof -
    have t: "time_text (units ''7'') (units ''45'') [] (units ''pm'')"
      by code_simp
    have s: "units ''at '' @ units ''7'' @ units '':'' @ units ''45'' @ [] @ units ''pm'' @ units '', 8:00 am''
             = units ''at 7:45pm, 8:00 am''"
      by (simp add: units_def)
    have "\<not> begins_time_text (drop n (units ''at 7:45pm, 8:00 am''))" if "n < length (units ''at '')" for n
    proof -
      from that consider "n = 0" | "n = 1" | "n = 2"
        by (auto simp: units_def less_Suc_eq)
      then have "match_here (drop n (units ''at 7:45pm, 8:00 am'')) = None"
      proof cases
        case 1
        have "match_here (drop 0 (units ''at 7:45pm, 8:00 am'')) = None" by code_simp
        with 1 show ?thesis by simp
      next
        case 2
        have "match_here (drop 1 (units ''at 7:45pm, 8:00 am'')) = None" by code_simp
        with 2 show ?thesis by simp
      next
        case 3
        have "match_here (drop 2 (units ''at 7:45pm, 8:00 am'')) = None" by code_simp
        with 3 show ?thesis by simp
      qed
      then show ?thesis
        using match_here_None_iff by blast
    qed
    then have "\<forall>n<length (units ''at ''). \<not> begins_time_text
        (drop n (units ''at '' @ units ''7'' @ units '':'' @ units ''45'' @ [] @ units ''pm'' @ units '', 8:00 am''))"
      by (simp only: s) blast
    from leftmost [where day = "plain_day 0", OF t this]
    have "parseTimeToDate_units (plain_day 0) (units ''at 7:45pm, 8:00 am'')
          = Some (plain_day 0 (hour24 (units ''pm'') (parseInt (units ''7''))) (parseInt (units ''45'')) 0)"
      by (simp only: s)
    moreover have "plain_day 0 (hour24 (units ''pm'') (parseInt (units ''7''))) (parseInt (units ''45'')) 0 = 71100000"
      by code_simp
    ultimately show ?thesis by (simp add: wrap)
  qed
  have e: "parseTimeToDate_units (plain_day 0) (units ''12:30'' @ [0x2003] @ units ''pm'') = Some 45000000"
    by code_simp
  have f: "parseTimeToDate (spring_forward_day 0) ''5:15 AM'' = Some 15300000"
    by code_simp
  have g: "parseTimeToDate (plain_day 0) ''soon'' = None"
    by code_simp
  from g parseTimeToDate_total [of "plain_day 0" "units ''soon''" "''soon''"]
  have h: "\<not> (\<exists>pre hh mm ws ap post. units ''soon'' = pre @ hh @ units '':'' @ mm @ ws @ ap @ post
          \<and> time_text hh mm ws ap)"
    by (simp add: wrap)
  have i: "schedule_prayer \<lparr>now = 3600000, today = plain_day 0\<rparr>
         \<lparr>settings_id = ''notifications'', enabled = True,
          prayers = [(''fajr'', True), (''sunrise'', False), (''dhuhr'', True)]\<rparr>
         \<lparr>snapshot_id = ''today'',
          properties = [(''subh'', ''5:15 AM''), (''sunrise'', ''6:30 AM''), (''duhr'', ''soon'')],
          updatedAt = 0\<rparr>
         (''dhuhr'', ''duhr'')
         [\<lparr>entry_id = ''fajr'', prayer = ''fajr'', time = 18900000,
           timeStr = ''5:15 AM'', notified = False\<rparr>]
       = [\<lparr>entry_id = ''fajr'', prayer = ''fajr'', time = 18900000,
           timeStr = ''5:15 AM'', notified = False\<rparr>]"
  proof -
    let ?clk = "\<lparr>now = 3600000, today = plain_day 0\<rparr>"
    let ?pt = "\<lparr>snapshot_id = ''today'',
          properties = [(''subh'', ''5:15 AM''), (''sunrise'', ''6:30 AM''), (''duhr'', ''soon'')],
          updatedAt = 0\<rparr>"
    have "map_of (properties ?pt) (snd (''dhuhr'', ''duhr'')) = Some ''soon''
          \<and> parseTimeToDate (today ?clk) ''soon'' = None"
      using g by simp
    with parseTimeToDate_total [of "plain_day 0" "[]" "''soon''"] show ?thesis
      by blast
  qed
  from a b c d e f g h i show ?thesis by blast
qed

section \<open>Properties of the scan\<close>

lemma set_dbPut_subset: "set (dbPut kp x xs) \<subseteq> insert x (set xs)"
  by (induction xs) auto

lemma scan_entry_store:
  "x \<in> set (db_scheduledNotifications (fst (scan_entry t n acc))) \<Longrightarrow>
   x \<in> set (db_scheduledNotifications (fst acc)) \<or> (x = n\<lparr>notified := True\<rparr> \<and> due t n)"
  using set_dbPut_subset [of entry_id "n\<lparr>notified := True\<rparr>" "db_scheduledNotifications (fst acc)"]
  by (auto simp: scan_entry_def Let_def due_def split: if_splits)

lemma scan_entry_log:
  "em \<in> set (snd (scan_entry t n acc)) \<Longrightarrow>
   em \<in> set (snd acc) \<or> (source em = Some n \<and> due t n)"
  by (auto simp: scan_entry_def Let_def due_def emit_def split: if_splits option.splits)

lemma fold_scan_entry_store:
  "x \<in> set (db_scheduledNotifications (fst (fold (scan_entry t) ns acc))) \<Longrightarrow>
   x \<in> set (db_scheduledNotifications (fst acc)) \<or> (\<exists>n \<in> set ns. x = n\<lparr>notified := True\<rparr> \<and> due t n)"
proof (induction ns arbitrary: acc)
  case Nil
  then show ?case by simp
next
  case (Cons n ns)
  from Cons.IH [of "scan_entry t n acc"] Cons.prems
  have "x \<in> set (db_scheduledNotifications (fst (scan_entry t n acc)))
        \<or> (\<exists>m \<in> set ns. x = m\<lparr>notified := True\<rparr> \<and> due t m)"
    by simp
  then show ?case
    using scan_entry_store [of x t n acc] by auto
qed

lemma fold_scan_entry_log:
  "em \<in> set (snd (fold (scan_entry t) ns acc)) \<Longrightarrow>
   em \<in> set (snd acc) \<or> (\<exists>n \<in> set ns. source em = Some n \<and> due t n)"
proof (induction ns arbitrary: acc)
  case Nil
  then show ?case by simp
next
  case (Cons n ns)
  from Cons.IH [of "scan_entry t n acc"] Cons.prems
  have "em \<in> set (snd (scan_entry t n acc)) \<or> (\<exists>m \<in> set ns. source em = Some m \<and> due t m)"
    by simp
  then show ?case
    using scan_entry_log [of em t n acc] by auto
qed

lemma due_recent: "due t n \<Longrightarrow> t0 \<le> t \<Longrightarrow> t0 \<le> time n + 60000"
  unfolding due_def by linarith

lemma scan_store_recent:
  assumes "t0 \<le> now clk"
    and "x \<in> set (db_scheduledNotifications (fst (checkAndShowNotifications clk d)))"
  shows "x \<in> set (db_scheduledNotifications d) \<or> t0 \<le> time x + 60000"
proof (cases "enabled (getNotificationSettings d)")
  case False
  with assms show ?thesis by (simp add: checkAndShowNotifications_def)
next
  case True
  with assms(2) have "x \<in> set (db_scheduledNotifications
      (fst (fold (scan_entry (now clk)) (db_scheduledNotifications d) (d, []))))"
    by (simp add: checkAndShowNotifications_def dbGetAll_def)
  from fold_scan_entry_store [OF this] show ?thesis
    using due_recent [OF _ assms(1)] by auto
qed

lemma scan_log_recent:
  assumes "t0 \<le> now clk"
    and "em \<in> set (snd (checkAndShowNotifications clk d))" and "source em = Some x"
  shows "t0 \<le> time x + 60000"
proof (cases "enabled (getNotificationSettings d)")
  case False
  with assms show ?thesis by (simp add: checkAndShowNotifications_def)
next
  case True
  with assms(2) have "em \<in> set (snd (fold (scan_entry (now clk)) (db_scheduledNotifications d) (d, [])))"
    by (simp add: checkAndShowNotifications_def dbGetAll_def)
  from fold_scan_entry_log [OF this] show ?thesis
    using due_recent [OF _ assms(1)] assms(3) by auto
qed

lemma schedule_store_recent:
  assumes "t0 \<le> now clk"
    and "x \<in> set (db_scheduledNotifications (scheduleNotifications clk d))"
  shows "x \<in> set (db_scheduledNotifications d) \<or> t0 \<le> time x + 60000"
proof (cases "enabled (getNotificationSettings d) \<and> getPrayerTimes d \<noteq> None")
  case False
  then have "scheduleNotifications clk d = d"
    by (intro scheduleNotifications_guard) auto
  with assms show ?thesis by simp
next
  case True
  then obtain pt where pt: "getPrayerTimes d = Some pt" by auto
  from True pt have "scheduleNotifications clk d =
     d\<lparr>db_scheduledNotifications :=
         List.map_filter (pending_entry_for clk (getNotificationSettings d) pt) timeMapping\<rparr>"
    by (intro scheduleNotifications_enabled) auto
  with assms(2) have "x \<in> set (List.map_filter (pending_entry_for clk (getNotificationSettings d) pt) timeMapping)"
    by simp
  then have "now clk < time x"
    unfolding mem_pending by auto
  with assms(1) show ?thesis by simp
qed


lemma emit_None_source: "em \<in> set (emit None n) \<Longrightarrow> source em = None"
  by (auto simp: emit_def split: option.splits)

lemma message_store_recent:
  assumes "t0 \<le> now clk"
    and "x \<in> set (db_scheduledNotifications (db (fst (message_listener clk m w))))"
  shows "x \<in> set (db_scheduledNotifications (db w)) \<or> t0 \<le> time x + 60000"
proof (cases m)
  case (UPDATE_NOTIFICATION_SETTINGS payload)
  with assms(2) schedule_store_recent [OF assms(1), of x] show ?thesis
    by (fastforce simp: split_beta)
next
  case (UPDATE_PRAYER_TIMES payload)
  with assms(2) schedule_store_recent [OF assms(1), of x] show ?thesis
    by (fastforce simp: split_beta)
next
  case CHECK_NOTIFICATIONS
  with assms(2) scan_store_recent [OF assms(1), of x "db w"] show ?thesis
    by (simp add: split_beta)
next
  case SCHEDULE_NOTIFICATIONS
  with assms(2) schedule_store_recent [OF assms(1), of x "db w"] show ?thesis
    by simp
qed (use assms(2) in \<open>simp_all add: split_beta\<close>)

lemma message_log_recent:
  assumes "t0 \<le> now clk"
    and "em \<in> set (snd (snd (message_listener clk m w)))" and "source em = Some x"
  shows "t0 \<le> time x + 60000"
proof (cases m)
  case CHECK_NOTIFICATIONS
  with assms scan_log_recent [OF assms(1), of em "db w" x] show ?thesis
    by (simp add: split_beta)
next
  case (TEST_NOTIFICATION p)
  with assms(2) have "source em = None"
    by (auto simp: split_beta dest: emit_None_source)
  with assms(3) show ?thesis by simp
qed (use assms(2) in \<open>simp_all add: split_beta\<close>)

lemma trigger_store_recent:
  assumes "t0 \<le> now clk"
    and "x \<in> set (db_scheduledNotifications (db (fst (handle_trigger clk tr w))))"
  shows "x \<in> set (db_scheduledNotifications (db w)) \<or> t0 \<le> time x + 60000"
proof (cases tr)
  case (Message m)
  with assms(2) message_store_recent [OF assms(1), of x m w] show ?thesis
    by (simp add: split_beta)
next
  case (Sync t)
  with assms(2) scan_store_recent [OF assms(1), of x "db w"]
    schedule_store_recent [OF assms(1), of x "db w"] show ?thesis
    by (auto simp: split_beta split: if_splits)
next
  case (PeriodicSync t)
  with assms(2) scan_store_recent [OF assms(1), of x "db w"] show ?thesis
    by (auto simp: split_beta split: if_splits)
next
  case TimerTick
  with assms(2) scan_store_recent [OF assms(1), of x "db w"] show ?thesis
    by (simp add: split_beta)
next
  case Activate
  with assms(2) have "x \<in> set (db_scheduledNotifications
      (fst (checkAndShowNotifications clk (scheduleNotifications clk (db w)))))"
    by (simp add: split_beta)
  from scan_store_recent [OF assms(1) this] schedule_store_recent [OF assms(1), of x "db w"]
  show ?thesis by blast
qed

lemma trigger_log_recent:
  assumes "t0 \<le> now clk"
    and "em \<in> set (snd (handle_trigger clk tr w))" and "source em = Some x"
  shows "t0 \<le> time x + 60000"
proof (cases tr)
  case (Message m)
  with assms message_log_recent [OF assms(1), of em m w x] show ?thesis
    by (simp add: split_beta)
next
  case (Sync t)
  with assms scan_log_recent [OF assms(1), of em "db w" x] show ?thesis
    by (auto simp: split_beta split: if_splits)
next
  case (PeriodicSync t)
  with assms scan_log_recent [OF assms(1), of em "db w" x] show ?thesis
    by (auto simp: split_beta split: if_splits)
next
  case TimerTick
  with assms scan_log_recent [OF assms(1), of em "db w" x] show ?thesis
    by (simp add: split_beta)
next
  case Activate
  with assms scan_log_recent [OF assms(1), of em "scheduleNotifications clk (db w)" x] show ?thesis
    by (simp add: split_beta)
qed

lemma run_recent:
  assumes "\<forall>ct \<in> set cts. t0 \<le> now (fst ct)"
  shows "(\<forall>x \<in> set (db_scheduledNotifications (db (fst (run cts w)))).
            x \<in> set (db_scheduledNotifications (db w)) \<or> t0 \<le> time x + 60000)
       \<and> (\<forall>em \<in> set (snd (run cts w)). \<forall>x. source em = Some x \<longrightarrow> t0 \<le> time x + 60000)"
  using assms
proof (induction cts arbitrary: w)
  case Nil
  then show ?case by simp
next
  case (Cons ct cts)
  let ?w1 = "fst (handle_trigger (fst ct) (snd ct) w)"
  from Cons.prems have t: "t0 \<le> now (fst ct)" and rest: "\<forall>ct \<in> set cts. t0 \<le> now (fst ct)"
    by simp_all
  note ih = Cons.IH [OF rest, of ?w1]
  have store: "x \<in> set (db_scheduledNotifications (db w)) \<or> t0 \<le> time x + 60000"
    if "x \<in> set (db_scheduledNotifications (db (fst (run (ct # cts) w))))" for x
  proof -
    from that have "x \<in> set (db_scheduledNotifications (db (fst (run cts ?w1))))"
      by (simp add: split_beta)
    with ih have "x \<in> set (db_scheduledNotifications (db ?w1)) \<or> t0 \<le> time x + 60000"
      by blast
    with trigger_store_recent [OF t, of x "snd ct" w] show ?thesis by blast
  qed
  have log: "t0 \<le> time x + 60000"
    if "em \<in> set (snd (run (ct # cts) w))" "source em = Some x" for em x
  proof -
    from that(1) have "em \<in> set (snd (handle_trigger (fst ct) (snd ct) w)) \<or> em \<in> set (snd (run cts ?w1))"
      by (auto simp: split_beta)
    with ih that(2) trigger_log_recent [OF t, of em "snd ct" w x] show ?thesis by blast
  qed
  from store log show ?case by blast
qed

lemma same_id_same_entry:
  "distinct (map kp xs) \<Longrightarrow> x \<in> set xs \<Longrightarrow> y \<in> set xs \<Longrightarrow> kp x = kp y \<Longrightarrow> x = y"
  by (meson distinct_map inj_onD)

lemma scan_step_log:
  assumes "\<forall>t ns. tk = ScanLoop t ns \<longrightarrow> t = now clk"
    and "em \<in> set (snd (snd (scan_step clk tk d)))"
  shows "\<exists>n. source em = Some n \<and> due (now clk) n"
proof (cases tk)
  case (ScanLoop t ns)
  with assms(1) have t: "t = now clk" by simp
  show ?thesis
  proof (cases ns)
    case Nil
    with ScanLoop assms(2) show ?thesis by simp
  next
    case (Cons n ms)
    with ScanLoop assms(2) t have "em \<in> set (snd (scan_entry (now clk) n (d, [])))"
      by (simp add: split_beta)
    from scan_entry_log [OF this] show ?thesis by auto
  qed
qed (use assms(2) in \<open>simp_all split: if_splits\<close>)

lemma scan_step_fresh:
  assumes "\<forall>t ns. tk = ScanLoop t ns \<longrightarrow> t = now clk"
  shows "\<forall>t ns. fst (scan_step clk tk d) = ScanLoop t ns \<longrightarrow> t = now clk"
proof (cases tk)
  case (ScanLoop t ns)
  with assms show ?thesis by (cases ns) (simp_all add: split_beta)
qed (simp_all split: if_splits)

lemma interleave_log:
  assumes "\<forall>t ns. fst ts = ScanLoop t ns \<longrightarrow> t = now clk"
    and "\<forall>t ns. snd ts = ScanLoop t ns \<longrightarrow> t = now clk"
    and "em \<in> set (snd (interleave clk bs ts d))"
  shows "\<exists>n. source em = Some n \<and> due (now clk) n"
  using assms
proof (induction bs arbitrary: ts d)
  case Nil
  then show ?case by simp
next
  case (Cons b bs)
  show ?case
  proof (cases b)
    case True
    let ?r = "scan_step clk (fst ts) d"
    from Cons.prems(3) True
    have "em \<in> set (snd (snd ?r)) \<or> em \<in> set (snd (interleave clk bs (fst ?r, snd ts) (fst (snd ?r))))"
      by (auto simp: split_beta)
    then show ?thesis
    proof
      assume "em \<in> set (snd (snd ?r))"
      with scan_step_log [OF Cons.prems(1)] show ?thesis by blast
    next
      assume "em \<in> set (snd (interleave clk bs (fst ?r, snd ts) (fst (snd ?r))))"
      with Cons.IH [of "(fst ?r, snd ts)" "fst (snd ?r)"] scan_step_fresh [OF Cons.prems(1), of d]
        Cons.prems(2)
      show ?thesis by simp
    qed
  next
    case False
    let ?r = "scan_step clk (snd ts) d"
    from Cons.prems(3) False
    have "em \<in> set (snd (snd ?r)) \<or> em \<in> set (snd (interleave clk bs (fst ts, fst ?r) (fst (snd ?r))))"
      by (auto simp: split_beta)
    then show ?thesis
    proof
      assume "em \<in> set (snd (snd ?r))"
      with scan_step_log [OF Cons.prems(2)] show ?thesis by blast
    next
      assume "em \<in> set (snd (interleave clk bs (fst ts, fst ?r) (fst (snd ?r))))"
      with Cons.IH [of "(fst ts, fst ?r)" "fst (snd ?r)"] scan_step_fresh [OF Cons.prems(2), of d]
        Cons.prems(1)
      show ?thesis by simp
    qed
  qed
qed

lemma overlapping_scans_recent:
  assumes "t0 \<le> now clk"
    and "em \<in> set (snd (interleave clk bs (ScanStart, ScanStart) d))" and "source em = Some x"
  shows "t0 \<le> time x + 60000"
proof -
  from interleave_log [of "(ScanStart, ScanStart)" clk em bs d] assms(2)
  obtain n where "source em = Some n" "due (now clk) n" by auto
  with assms(3) due_recent [OF _ assms(1)] show ?thesis by simp
qed

text \<open>
  Claim C4. Let a pending entry have its fire time more than 60 seconds before a time
  \<open>t0\<close> (the time of its first scan), and let any triggers follow, none before \<open>t0\<close>:
  scans by timer, sync, periodic sync or message, recomputations, updates of the settings
  or of the snapshot, activations. Then no notification of the run comes from that entry
  (every notification shown for an entry is for one with a later fire time), and
  whatever the collection holds under the entry's id at the end is either the entry
  itself, still not notified, or an entry with a later fire time, which a recomputation
  scheduled anew. Two scans that overlap, in whatever order their steps are taken, do not
  fire the entry either.
\<close>

theorem missed_entry_never_fires:
  assumes "e \<in> set (db_scheduledNotifications (db w))"
    and "distinct (map entry_id (db_scheduledNotifications (db w)))"
    and "\<not> notified e"
    and "time e + 60000 < t0"
    and "\<forall>ct \<in> set cts. t0 \<le> now (fst ct)"
  shows "(\<forall>em \<in> set (snd (run cts w)). \<forall>x. source em = Some x \<longrightarrow> time e < time x)
       \<and> (\<forall>x \<in> set (db_scheduledNotifications (db (fst (run cts w)))).
             entry_id x = entry_id e \<longrightarrow> (x = e \<and> \<not> notified x) \<or> time e < time x)
       \<and> (\<forall>clk bs. t0 \<le> now clk \<longrightarrow>
             (\<forall>em \<in> set (snd (interleave clk bs (ScanStart, ScanStart) (db (fst (run cts w))))).
                \<forall>x. source em = Some x \<longrightarrow> time e < time x))"
proof (intro conjI ballI allI impI)
  fix em x
  assume "em \<in> set (snd (run cts w))" "source em = Some x"
  with run_recent [OF assms(5), of w] have "t0 \<le> time x + 60000"
    by blast
  with assms(4) show "time e < time x" by simp
next
  fix x
  assume x: "x \<in> set (db_scheduledNotifications (db (fst (run cts w))))" "entry_id x = entry_id e"
  with run_recent [OF assms(5), of w]
  have "x \<in> set (db_scheduledNotifications (db w)) \<or> t0 \<le> time x + 60000"
    by blast
  then show "(x = e \<and> \<not> notified x) \<or> time e < time x"
  proof
    assume "x \<in> set (db_scheduledNotifications (db w))"
    from same_id_same_entry [OF assms(2) this assms(1) x(2)] assms(3)
    show ?thesis by simp
  next
    assume "t0 \<le> time x + 60000"
    with assms(4) show ?thesis by simp
  qed
next
  fix clk :: clock and bs em x
  assume "t0 \<le> now clk"
    and "em \<in> set (snd (interleave clk bs (ScanStart, ScanStart) (db (fst (run cts w)))))"
    and "source em = Some x"
  then have "t0 \<le> time x + 60000" by (rule overlapping_scans_recent)
  with assms(4) show "time e < time x" by simp
qed

text \<open>
  The Fajr entry of 5:15 is first scanned at 5:16:40; that scan and two later ones show
  nothing and leave the entry pending.
\<close>

theorem missed_entry_never_fires_witness:
  "snd (run
     [(\<lparr>now = 19000000, today = plain_day 0\<rparr>, TimerTick),
      (\<lparr>now = 19030000, today = plain_day 0\<rparr>, PeriodicSync ''prayer-notification-check''),
      (\<lparr>now = 19060000, today = plain_day 0\<rparr>, Message CHECK_NOTIFICATIONS)]
     \<lparr>caches = [],
      db = \<lparr>db_settings =
              [\<lparr>settings_id = ''notifications'', enabled = True, prayers = [(''fajr'', True)]\<rparr>],
            db_prayerTimes =
              [\<lparr>snapshot_id = ''today'', properties = [(''subh'', ''5:15 AM'')], updatedAt = 0\<rparr>],
            db_scheduledNotifications =
              [\<lparr>entry_id = ''fajr'', prayer = ''fajr'', time = 18900000,
                timeStr = ''5:15 AM'', notified = False\<rparr>]\<rparr>\<rparr>) = []
   \<and> db_scheduledNotifications (db (fst (run
     [(\<lparr>now = 19000000, today = plain_day 0\<rparr>, TimerTick),
      (\<lparr>now = 19030000, today = plain_day 0\<rparr>, PeriodicSync ''prayer-notification-check''),
      (\<lparr>now = 19060000, today = plain_day 0\<rparr>, Message CHECK_NOTIFICATIONS)]
     \<lparr>caches = [],
      db = \<lparr>db_settings =
              [\<lparr>settings_id = ''notifications'', enabled = True, prayers = [(''fajr'', True)]\<rparr>],
            db_prayerTimes =
              [\<lparr>snapshot_id = ''today'', properties = [(''subh'', ''5:15 AM'')], updatedAt = 0\<rparr>],
            db_scheduledNotifications =
              [\<lparr>entry_id = ''fajr'', prayer = ''fajr'', time = 18900000,
                timeStr = ''5:15 AM'', notified = False\<rparr>]\<rparr>\<rparr>)))
     = [\<lparr>entry_id = ''fajr'', prayer = ''fajr'', time = 18900000,
         timeStr = ''5:15 AM'', notified = False\<rparr>]
   \<and> \<not> (\<exists>em \<in> set (snd (run
     [(\<lparr>now = 19000000, today = plain_day 0\<rparr>, TimerTick),
      (\<lparr>now = 19030000, today = plain_day 0\<rparr>, PeriodicSync ''prayer-notification-check''),
      (\<lparr>now = 19060000, today = plain_day 0\<rparr>, Message CHECK_NOTIFICATIONS)]
     \<lparr>caches = [],
      db = \<lparr>db_settings =
              [\<lparr>settings_id = ''notifications'', enabled = True, prayers = [(''fajr'', True)]\<rparr>],
            db_prayerTimes =
              [\<lparr>snapshot_id = ''today'', properties = [(''subh'', ''5:15 AM'')], updatedAt = 0\<rparr>],
            db_scheduledNotifications =
              [\<lparr>entry_id = ''fajr'', prayer = ''fajr'', time = 18900000,
                timeStr = ''5:15 AM'', notified = False\<rparr>]\<rparr>\<rparr>)).
          source em = Some \<lparr>entry_id = ''fajr'', prayer = ''fajr'', time = 18900000,
                timeStr = ''5:15 AM'', notified = False\<rparr>)"
proof -
  let ?e = "\<lparr>entry_id = ''fajr'', prayer = ''fajr'', time = 18900000,
                timeStr = ''5:15 AM'', notified = False\<rparr>"
  let ?w = "\<lparr>caches = [],
      db = \<lparr>db_settings =
              [\<lparr>settings_id = ''notifications'', enabled = True, prayers = [(''fajr'', True)]\<rparr>],
            db_prayerTimes =
              [\<lparr>snapshot_id = ''today'', properties = [(''subh'', ''5:15 AM'')], updatedAt = 0\<rparr>],
            db_scheduledNotifications = [?e]\<rparr>\<rparr>"
  let ?cts = "[(\<lparr>now = 19000000, today = plain_day 0\<rparr>, TimerTick),
      (\<lparr>now = 19030000, today = plain_day 0\<rparr>, PeriodicSync ''prayer-notification-check''),
      (\<lparr>now = 19060000, today = plain_day 0\<rparr>, Message CHECK_NOTIFICATIONS)]"
  have ev: "snd (run ?cts ?w) = [] \<and> db_scheduledNotifications (db (fst (run ?cts ?w))) = [?e]"
    by code_simp
  have "\<forall>em \<in> set (snd (run ?cts ?w)). \<forall>x. source em = Some x \<longrightarrow> time ?e < time x"
    using missed_entry_never_fires [of ?e ?w 19000000 ?cts] by simp
  then have "\<not> (\<exists>em \<in> set (snd (run ?cts ?w)). source em = Some ?e)"
    by fastforce
  with ev show ?thesis by blast
qed

lemma show_depends_on_snapshot:
  "db_prayerTimes d' = db_prayerTimes d \<Longrightarrow>
   showPrayerNotification d' p ts = showPrayerNotification d p ts"
proof -
  assume "db_prayerTimes d' = db_prayerTimes d"
  then have "getPrayerTimes d' = getPrayerTimes d"
    by (simp add: getPrayerTimes_def)
  then show ?thesis
    by (simp add: showPrayerNotification_def cong: option.case_cong)
qed

lemma due_iff: "due t n \<longleftrightarrow> \<not> notified n \<and> time n - t \<le> 60000 \<and> time n - t \<ge> - 60000"
  unfolding due_def by linarith

lemma scan_entry_due:
  "scan_entry t n acc =
     (if due t n
      then ((fst acc)\<lparr>db_scheduledNotifications :=
                dbPut entry_id (n\<lparr>notified := True\<rparr>) (db_scheduledNotifications (fst acc))\<rparr>,
            snd acc @ emit (Some n) (showPrayerNotification (fst acc) (prayer n) (timeStr n)))
      else acc)"
  by (auto simp: scan_entry_def due_iff Let_def)

lemma fold_scan_log:
  "snd (fold (scan_entry t) ns acc) =
   snd acc @ concat (map (\<lambda>n. if due t n
                               then emit (Some n) (showPrayerNotification (fst acc) (prayer n) (timeStr n))
                               else []) ns)"
proof (induction ns arbitrary: acc)
  case Nil
  then show ?case by simp
next
  case (Cons n ns)
  have "db_prayerTimes (fst (scan_entry t n acc)) = db_prayerTimes (fst acc)"
    by (rule scan_entry_prayerTimes)
  then have same: "showPrayerNotification (fst (scan_entry t n acc)) p ts
                 = showPrayerNotification (fst acc) p ts" for p ts
    by (rule show_depends_on_snapshot)
  show ?case
    by (simp add: Cons.IH same cong: if_cong) (simp add: scan_entry_due)
qed

lemma dbGet_dbPut: "dbGet kp (dbPut kp y xs) k = (if kp y = k then Some y else dbGet kp xs k)"
  by (induction xs) (auto simp: dbGet_def)

lemma scan_entry_lookup:
  "dbGet entry_id (db_scheduledNotifications (fst (scan_entry t n acc))) k =
     (if entry_id n = k \<and> due t n then Some (n\<lparr>notified := True\<rparr>)
      else dbGet entry_id (db_scheduledNotifications (fst acc)) k)"
  by (simp add: scan_entry_due dbGet_dbPut)

lemma distinct_head: "distinct (map f (n # ns)) \<Longrightarrow> m \<in> set ns \<Longrightarrow> f m \<noteq> f n"
  by (metis distinct.simps(2) imageI list.set_map list.simps(9))

lemma fold_scan_lookup:
  "distinct (map entry_id ns) \<Longrightarrow>
   dbGet entry_id (db_scheduledNotifications (fst (fold (scan_entry t) ns acc))) k =
     (case find (\<lambda>n. entry_id n = k \<and> due t n) ns of
        Some n \<Rightarrow> Some (n\<lparr>notified := True\<rparr>)
      | None \<Rightarrow> dbGet entry_id (db_scheduledNotifications (fst acc)) k)"
proof (induction ns arbitrary: acc)
  case Nil
  then show ?case by simp
next
  case (Cons n ns)
  show ?case
  proof (cases "entry_id n = k \<and> due t n")
    case True
    with distinct_head [OF Cons.prems] have "find (\<lambda>m. entry_id m = k \<and> due t m) ns = None"
      by (auto simp: find_None_iff)
    with Cons True show ?thesis
      by (simp add: scan_entry_lookup)
  next
    case False
    have "dbGet entry_id (db_scheduledNotifications (fst (scan_entry t n acc))) k
          = dbGet entry_id (db_scheduledNotifications (fst acc)) k"
      using False by (auto simp: scan_entry_lookup)
    with Cons False show ?thesis
      by (auto cong: option.case_cong)
  qed
qed

lemma keys_dbPut:
  "map kp (dbPut kp x xs) = (if kp x \<in> set (map kp xs) then map kp xs else map kp xs @ [kp x])"
  by (induction xs) auto

lemma scan_entry_distinct:
  "distinct (map entry_id (db_scheduledNotifications (fst acc))) \<Longrightarrow>
   distinct (map entry_id (db_scheduledNotifications (fst (scan_entry t n acc))))"
  by (simp add: scan_entry_due keys_dbPut)

lemma fold_scan_distinct:
  "distinct (map entry_id (db_scheduledNotifications (fst acc))) \<Longrightarrow>
   distinct (map entry_id (db_scheduledNotifications (fst (fold (scan_entry t) ns acc))))"
  by (induction ns arbitrary: acc) (simp_all add: scan_entry_distinct)

lemma scan_distinct:
  "distinct (map entry_id (db_scheduledNotifications d)) \<Longrightarrow>
   distinct (map entry_id (db_scheduledNotifications (fst (checkAndShowNotifications clk d))))"
  by (simp add: checkAndShowNotifications_def fold_scan_distinct)

lemma emissions_for_append:
  "emissions_for k (xs @ ys) = emissions_for k xs @ emissions_for k ys"
  by (simp add: emissions_for_def)

lemma emissions_for_Nil: "emissions_for k [] = []"
  by (simp add: emissions_for_def)

lemma emissions_for_emit:
  "emissions_for k (emit (Some n) x) = (if entry_id n = k then emit (Some n) x else [])"
  by (simp add: emissions_for_def emit_def split: option.splits)

lemma emissions_for_concat:
  "emissions_for k (concat (map (\<lambda>n. if P n then emit (Some n) (f n) else []) ns))
   = concat (map (\<lambda>n. if entry_id n = k \<and> P n then emit (Some n) (f n) else []) ns)"
  by (induction ns) (simp_all add: emissions_for_append emissions_for_emit emissions_for_Nil)

lemma concat_single:
  "distinct (map entry_id ns) \<Longrightarrow> e \<in> set ns \<Longrightarrow>
   concat (map (\<lambda>n. if entry_id n = entry_id e \<and> P n then g n else []) ns)
   = (if P e then g e else [])"
proof (induction ns)
  case Nil
  then show ?case by simp
next
  case (Cons n ns)
  show ?case
  proof (cases "n = e")
    case True
    with distinct_head [OF Cons.prems(1)] have "\<forall>m \<in> set ns. entry_id m \<noteq> entry_id e"
      by auto
    then have "concat (map (\<lambda>n. if entry_id n = entry_id e \<and> P n then g n else []) ns) = []"
      by (induction ns) auto
    with True show ?thesis by simp
  next
    case False
    with Cons.prems have e: "e \<in> set ns"
      by auto
    with distinct_head [OF Cons.prems(1)] have "entry_id n \<noteq> entry_id e"
      by metis
    note this e
    with Cons show ?thesis by simp
  qed
qed

lemma dbGet_Some_mem: "dbGet kp xs k = Some x \<Longrightarrow> x \<in> set xs \<and> kp x = k"
  by (induction xs) (auto simp: dbGet_def split: if_splits)

lemma dbGet_distinct_mem:
  "distinct (map kp xs) \<Longrightarrow> x \<in> set xs \<Longrightarrow> dbGet kp xs (kp x) = Some x"
proof (induction xs)
  case Nil
  then show ?case by simp
next
  case (Cons y ys)
  show ?case
  proof (cases "y = x")
    case True
    then show ?thesis by (simp add: dbGet_def)
  next
    case False
    with Cons.prems have x: "x \<in> set ys" by simp
    with distinct_head [OF Cons.prems(1)] have "kp y \<noteq> kp x" by metis
    with Cons x show ?thesis by (simp add: dbGet_def)
  qed
qed


lemma find_unique:
  "distinct (map f xs) \<Longrightarrow> e \<in> set xs \<Longrightarrow>
   find (\<lambda>n. f n = f e \<and> P n) xs = (if P e then Some e else None)"
proof (induction xs)
  case Nil
  then show ?case by simp
next
  case (Cons y ys)
  show ?case
  proof (cases "y = e")
    case True
    from distinct_head [OF Cons.prems(1)] have "\<forall>m \<in> set ys. f m \<noteq> f y"
      by auto
    then have "find (\<lambda>n. f n = f y \<and> P n) ys = None"
      by (auto simp: find_None_iff)
    with True show ?thesis by simp
  next
    case False
    with Cons.prems have e: "e \<in> set ys" by simp
    with distinct_head [OF Cons.prems(1)] have "f y \<noteq> f e" by metis
    with Cons e show ?thesis by simp
  qed
qed

lemma scan_emissions_for:
  assumes "enabled (getNotificationSettings d)"
    and "distinct (map entry_id (db_scheduledNotifications d))"
    and "e \<in> set (db_scheduledNotifications d)"
  shows "emissions_for (entry_id e) (snd (checkAndShowNotifications clk d)) =
           (if due (now clk) e
            then emit (Some e) (showPrayerNotification d (prayer e) (timeStr e)) else [])"
  using assms
  by (simp add: checkAndShowNotifications_def dbGetAll_def fold_scan_log emissions_for_concat
      concat_single [where P = "due (now clk)"])

lemma scan_lookup:
  assumes "enabled (getNotificationSettings d)"
    and "distinct (map entry_id (db_scheduledNotifications d))"
    and "e \<in> set (db_scheduledNotifications d)"
  shows "dbGet entry_id (db_scheduledNotifications (fst (checkAndShowNotifications clk d))) (entry_id e) =
           Some (if due (now clk) e then e\<lparr>notified := True\<rparr> else e)"
  using assms
  by (simp add: checkAndShowNotifications_def dbGetAll_def fold_scan_lookup
      find_unique [where P = "due (now clk)"] dbGet_distinct_mem)

lemma scan_keeps_fired:
  assumes "distinct (map entry_id (db_scheduledNotifications d))"
    and "dbGet entry_id (db_scheduledNotifications d) k = Some x" and "notified x"
  shows "emissions_for k (snd (checkAndShowNotifications clk d)) = []
       \<and> dbGet entry_id (db_scheduledNotifications (fst (checkAndShowNotifications clk d))) k = Some x"
proof (cases "enabled (getNotificationSettings d)")
  case False
  with assms show ?thesis
    by (simp add: checkAndShowNotifications_def emissions_for_Nil)
next
  case True
  from dbGet_Some_mem [OF assms(2)] have x: "x \<in> set (db_scheduledNotifications d)" "entry_id x = k"
    by simp_all
  have "\<not> due (now clk) x" using assms(3) by (simp add: due_def)
  with scan_emissions_for [OF True assms(1) x(1), of clk] scan_lookup [OF True assms(1) x(1), of clk] x(2)
  show ?thesis by simp
qed

lemma scans_keep_fired:
  assumes "distinct (map entry_id (db_scheduledNotifications d))"
    and "dbGet entry_id (db_scheduledNotifications d) k = Some x" and "notified x"
  shows "emissions_for k (snd (scans cs d)) = []
       \<and> dbGet entry_id (db_scheduledNotifications (fst (scans cs d))) k = Some x"
  using assms
proof (induction cs arbitrary: d)
  case Nil
  then show ?case by (simp add: emissions_for_Nil)
next
  case (Cons c cs)
  let ?d1 = "fst (checkAndShowNotifications c d)"
  from scan_keeps_fired [OF Cons.prems, of c]
  have 1: "emissions_for k (snd (checkAndShowNotifications c d)) = []"
    and 2: "dbGet entry_id (db_scheduledNotifications ?d1) k = Some x"
    by simp_all
  have 3: "distinct (map entry_id (db_scheduledNotifications ?d1))"
    using Cons.prems(1) by (rule scan_distinct)
  from Cons.IH [OF 3 2 Cons.prems(3)] 1 show ?case
    by (simp add: split_beta emissions_for_append)
qed

lemma template_exists: "p \<in> set (map fst timeMapping) \<Longrightarrow> map_of PRAYER_MESSAGES p \<noteq> None"
  by (auto simp: timeMapping_def PRAYER_MESSAGES_def)

lemma show_Some:
  "map_of PRAYER_MESSAGES p \<noteq> None \<Longrightarrow> \<exists>n. showPrayerNotification d p ts = Some n"
  by (auto simp: showPrayerNotification_def Let_def)

text \<open>
  Claim C3, as the code has it. Let notifications be enabled, the ids of the scheduled
  entries be distinct (the key of the object store), and a pending entry of one of the
  six prayers be within 60 seconds of its fire time at the time of a scan. Then the scan
  shows exactly one notification for that entry and stores the entry with \<open>notified\<close>
  on; and scans that follow, each begun after the one before has finished, at any times
  and in any number, show nothing more for it and leave it as it is.
\<close>

theorem due_entry_fires_once:
  assumes "enabled (getNotificationSettings d)"
    and "distinct (map entry_id (db_scheduledNotifications d))"
    and "e \<in> set (db_scheduledNotifications d)"
    and "\<not> notified e" and "\<bar>now clk - time e\<bar> \<le> 60000"
    and "prayer e \<in> set (map fst timeMapping)"
  shows "(\<exists>n. showPrayerNotification d (prayer e) (timeStr e) = Some n
            \<and> emissions_for (entry_id e) (snd (checkAndShowNotifications clk d))
                = [\<lparr>source = Some e, shown = n\<rparr>])
       \<and> dbGet entry_id (db_scheduledNotifications (fst (checkAndShowNotifications clk d))) (entry_id e)
           = Some (e\<lparr>notified := True\<rparr>)
       \<and> (\<forall>cs. emissions_for (entry_id e) (snd (scans cs (fst (checkAndShowNotifications clk d)))) = []
              \<and> dbGet entry_id
                   (db_scheduledNotifications (fst (scans cs (fst (checkAndShowNotifications clk d)))))
                   (entry_id e) = Some (e\<lparr>notified := True\<rparr>))"
proof -
  let ?d1 = "fst (checkAndShowNotifications clk d)"
  have due: "due (now clk) e"
    using assms(4,5) by (simp add: due_def)
  from show_Some [OF template_exists [OF assms(6)], of d "timeStr e"]
  obtain n where n: "showPrayerNotification d (prayer e) (timeStr e) = Some n" by blast
  have a: "emissions_for (entry_id e) (snd (checkAndShowNotifications clk d))
             = [\<lparr>source = Some e, shown = n\<rparr>]"
    using scan_emissions_for [OF assms(1,2,3), of clk] due n by (simp add: emit_def)
  have b: "dbGet entry_id (db_scheduledNotifications ?d1) (entry_id e) = Some (e\<lparr>notified := True\<rparr>)"
    using scan_lookup [OF assms(1,2,3), of clk] due by simp
  have c: "distinct (map entry_id (db_scheduledNotifications ?d1))"
    using assms(2) by (rule scan_distinct)
  have "emissions_for (entry_id e) (snd (scans cs ?d1)) = []
      \<and> dbGet entry_id (db_scheduledNotifications (fst (scans cs ?d1))) (entry_id e)
           = Some (e\<lparr>notified := True\<rparr>)" for cs
    using scans_keep_fired [OF c b, of cs] by simp
  with n a b show ?thesis by blast
qed


text \<open>
  The Dhuhr entry of 12:30 PM, scanned 30 seconds early, is shown once; the scans at
  12:30:00 and 12:30:30, both within the window, show nothing for it.
\<close>

theorem due_entry_fires_once_witness:
  "length (emissions_for ''dhuhr'' (snd (checkAndShowNotifications \<lparr>now = 44970000, today = plain_day 0\<rparr>
      \<lparr>db_settings =
         [\<lparr>settings_id = ''notifications'', enabled = True, prayers = [(''dhuhr'', True)]\<rparr>],
       db_prayerTimes =
         [\<lparr>snapshot_id = ''today'',
           properties = [(''duhr'', ''12:30 PM''), (''location'', ''Kuttiady'')], updatedAt = 0\<rparr>],
       db_scheduledNotifications =
         [\<lparr>entry_id = ''dhuhr'', prayer = ''dhuhr'', time = 45000000,
           timeStr = ''12:30 PM'', notified = False\<rparr>]\<rparr>))) = 1
   \<and> emissions_for ''dhuhr'' (snd (scans [\<lparr>now = 45000000, today = plain_day 0\<rparr>, \<lparr>now = 45030000, today = plain_day 0\<rparr>]
        (fst (checkAndShowNotifications \<lparr>now = 44970000, today = plain_day 0\<rparr>
      \<lparr>db_settings =
         [\<lparr>settings_id = ''notifications'', enabled = True, prayers = [(''dhuhr'', True)]\<rparr>],
       db_prayerTimes =
         [\<lparr>snapshot_id = ''today'',
           properties = [(''duhr'', ''12:30 PM''), (''location'', ''Kuttiady'')], updatedAt = 0\<rparr>],
       db_scheduledNotifications =
         [\<lparr>entry_id = ''dhuhr'', prayer = ''dhuhr'', time = 45000000,
           timeStr = ''12:30 PM'', notified = False\<rparr>]\<rparr>)))) = []"
proof -
  let ?e = "\<lparr>entry_id = ''dhuhr'', prayer = ''dhuhr'', time = 45000000,
           timeStr = ''12:30 PM'', notified = False\<rparr>"
  let ?d = "\<lparr>db_settings =
         [\<lparr>settings_id = ''notifications'', enabled = True, prayers = [(''dhuhr'', True)]\<rparr>],
       db_prayerTimes =
         [\<lparr>snapshot_id = ''today'',
           properties = [(''duhr'', ''12:30 PM''), (''location'', ''Kuttiady'')], updatedAt = 0\<rparr>],
       db_scheduledNotifications = [?e]\<rparr>"
  let ?clk = "\<lparr>now = 44970000, today = plain_day 0\<rparr>"
  have h1: "enabled (getNotificationSettings ?d)"
    by (simp add: getNotificationSettings_def dbGet_def)
  have h2: "distinct (map entry_id (db_scheduledNotifications ?d))" by simp
  have h3: "?e \<in> set (db_scheduledNotifications ?d)" by simp
  have h4: "\<not> notified ?e" by simp
  have h5: "\<bar>now ?clk - time ?e\<bar> \<le> 60000" by simp
  have h6: "prayer ?e \<in> set (map fst timeMapping)" by (simp add: timeMapping_def)
  note t = due_entry_fires_once [OF h1 h2 h3 h4 h5 h6]
  from t obtain n where "emissions_for (entry_id ?e) (snd (checkAndShowNotifications ?clk ?d))
                = [\<lparr>source = Some ?e, shown = n\<rparr>]"
    by blast
  then have a: "length (emissions_for ''dhuhr'' (snd (checkAndShowNotifications ?clk ?d))) = 1"
    by simp
  from t have "emissions_for (entry_id ?e)
      (snd (scans [\<lparr>now = 45000000, today = plain_day 0\<rparr>, \<lparr>now = 45030000, today = plain_day 0\<rparr>]
         (fst (checkAndShowNotifications ?clk ?d)))) = []"
    by blast
  then have b: "emissions_for ''dhuhr''
      (snd (scans [\<lparr>now = 45000000, today = plain_day 0\<rparr>, \<lparr>now = 45030000, today = plain_day 0\<rparr>]
         (fst (checkAndShowNotifications ?clk ?d)))) = []"
    by simp
  from a b show ?thesis by blast
qed

text \<open>
  The theorem is about scans alone. A recomputation that comes between an early firing
  and the fire time finds the instant still ahead and schedules the prayer anew, so the
  next scan within the window fires it again: Dhuhr at 12:30 PM, scanned at 12:29:30,
  recomputed at 12:29:40, scanned at 12:29:50.
\<close>

lemma recomputation_inside_window_fires_again:
  "length (emissions_for ''dhuhr'' (snd (run
      [(\<lparr>now = 44970000, today = plain_day 0\<rparr>, TimerTick),
       (\<lparr>now = 44980000, today = plain_day 0\<rparr>, Message SCHEDULE_NOTIFICATIONS),
       (\<lparr>now = 44990000, today = plain_day 0\<rparr>, Message CHECK_NOTIFICATIONS)]
      \<lparr>caches = [],
       db = \<lparr>db_settings =
               [\<lparr>settings_id = ''notifications'', enabled = True, prayers = [(''dhuhr'', True)]\<rparr>],
             db_prayerTimes =
               [\<lparr>snapshot_id = ''today'',
                 properties = [(''duhr'', ''12:30 PM''), (''location'', ''Kuttiady'')], updatedAt = 0\<rparr>],
             db_scheduledNotifications =
               [\<lparr>entry_id = ''dhuhr'', prayer = ''dhuhr'', time = 45000000,
                 timeStr = ''12:30 PM'', notified = False\<rparr>]\<rparr>\<rparr>))) = 2"
  by code_simp

subsection \<open>Scans that overlap\<close>

text \<open>
  The steps of a scan, taken one after the other with nothing in between, give the scan:
  the step model adds nothing to \<open>checkAndShowNotifications\<close> but the points where
  another scan can come in.
\<close>

lemma scan_entry_log_prefix:
  "scan_entry t n (d, log) = (fst (scan_entry t n (d, [])), log @ snd (scan_entry t n (d, [])))"
  by (simp add: scan_entry_due)

lemma fold_scan_log_prefix:
  "fold (scan_entry t) ns (d, log) =
     (fst (fold (scan_entry t) ns (d, [])), log @ snd (fold (scan_entry t) ns (d, [])))"
proof (induction ns arbitrary: d log)
  case Nil
  then show ?case by simp
next
  case (Cons n ns)
  obtain d1 l1 where r: "scan_entry t n (d, []) = (d1, l1)"
    by (cases "scan_entry t n (d, [])")
  have "scan_entry t n (d, log) = (d1, log @ l1)"
    using scan_entry_log_prefix [of t n d log] r by simp
  then show ?case
    using Cons.IH [of d1 "log @ l1"] Cons.IH [of d1 l1] r by simp
qed

lemma scan_loop_sequential:
  "scan_run clk (Suc (length ns)) (ScanLoop t ns) d = fold (scan_entry t) ns (d, [])"
proof (induction ns arbitrary: d)
  case Nil
  then show ?case by simp
next
  case (Cons n ns)
  obtain d1 l1 where r: "scan_entry t n (d, []) = (d1, l1)"
    by (cases "scan_entry t n (d, [])")
  have "scan_run clk (Suc (length (n # ns))) (ScanLoop t (n # ns)) d
        = (case scan_run clk (Suc (length ns)) (ScanLoop t ns) d1 of (d2, log2) \<Rightarrow> (d2, l1 @ log2))"
    by (subst scan_run.simps(2)) (simp add: r del: scan_run.simps(2))
  also have "\<dots> = (fst (fold (scan_entry t) ns (d1, [])), l1 @ snd (fold (scan_entry t) ns (d1, [])))"
    by (simp only: Cons.IH split_beta)
  also have "\<dots> = fold (scan_entry t) ns (d1, l1)"
    by (rule fold_scan_log_prefix [symmetric])
  also have "\<dots> = fold (scan_entry t) (n # ns) (d, [])"
    by (simp add: r)
  finally show ?case .
qed

lemma scan_run_done: "scan_run clk k ScanDone d = (d, [])"
  by (induction k) simp_all

lemma scan_run_sequential:
  "scan_run clk (Suc (Suc (Suc (length (db_scheduledNotifications d))))) ScanStart d
   = checkAndShowNotifications clk d"
proof (cases "enabled (getNotificationSettings d)")
  case False
  have "scan_run clk (Suc (Suc (Suc (length (db_scheduledNotifications d))))) ScanStart d
        = scan_run clk (Suc (Suc (length (db_scheduledNotifications d)))) ScanDone d"
    by (subst scan_run.simps(2)) (simp add: False del: scan_run.simps(2))
  with False show ?thesis
    by (simp only: scan_run_done checkAndShowNotifications_def if_True simp_thms)
next
  case True
  let ?xs = "db_scheduledNotifications d"
  have "scan_run clk (Suc (Suc (Suc (length ?xs)))) ScanStart d
        = scan_run clk (Suc (Suc (length ?xs))) ScanRead d"
    by (subst scan_run.simps(2)) (simp add: True del: scan_run.simps(2))
  also have "\<dots> = scan_run clk (Suc (length ?xs)) (ScanLoop (now clk) ?xs) d"
    by (subst scan_run.simps(2)) (simp add: dbGetAll_def del: scan_run.simps(2))
  also have "\<dots> = fold (scan_entry (now clk)) ?xs (d, [])"
    by (rule scan_loop_sequential)
  also have "\<dots> = checkAndShowNotifications clk d"
    using True by (simp add: checkAndShowNotifications_def dbGetAll_def)
  finally show ?thesis .
qed

text \<open>
  Claim C3 as stated fails in two ways. Two scans that overlap both fire the entry: each
  reads the entries while the flag is still off (the first is suspended at an
  \<open>await\<close>, in \<open>dbGetAll\<close> or in \<open>showPrayerNotification\<close>, when the second reads),
  each decides on its own copy, so the Dhuhr entry, due in 30 seconds, is shown twice.
  And with notifications disabled, a scan within the window fires nothing.
\<close>

theorem overlapping_scans_fire_twice_counterexample:
  "length (emissions_for ''dhuhr'' (snd (interleave \<lparr>now = 44970000, today = plain_day 0\<rparr>
      [True, False, True, False, True, False, True, False] (ScanStart, ScanStart)
      \<lparr>db_settings =
         [\<lparr>settings_id = ''notifications'', enabled = True, prayers = [(''dhuhr'', True)]\<rparr>],
       db_prayerTimes =
         [\<lparr>snapshot_id = ''today'',
           properties = [(''duhr'', ''12:30 PM''), (''location'', ''Kuttiady'')], updatedAt = 0\<rparr>],
       db_scheduledNotifications =
         [\<lparr>entry_id = ''dhuhr'', prayer = ''dhuhr'', time = 45000000,
           timeStr = ''12:30 PM'', notified = False\<rparr>]\<rparr>))) = 2
   \<and> snd (checkAndShowNotifications \<lparr>now = 44970000, today = plain_day 0\<rparr>
      \<lparr>db_settings =
         [\<lparr>settings_id = ''notifications'', enabled = False, prayers = [(''dhuhr'', True)]\<rparr>],
       db_prayerTimes =
         [\<lparr>snapshot_id = ''today'',
           properties = [(''duhr'', ''12:30 PM''), (''location'', ''Kuttiady'')], updatedAt = 0\<rparr>],
       db_scheduledNotifications =
         [\<lparr>entry_id = ''dhuhr'', prayer = ''dhuhr'', time = 45000000,
           timeStr = ''12:30 PM'', notified = False\<rparr>]\<rparr>) = []"
  by code_simp


end
